theory Spec2Isabelle
  imports Main
begin

section \<open>JavaScript values of the embedding\<close>

text \<open>
  The library \<^verbatim>\<open>src/lib/oath.js\<close> is a promise implementation: mutable
  \<^verbatim>\<open>Promise\<close> objects that hold callbacks and call them. The embedding keeps the
  promise objects in an explicit store (addresses are allocation indices), represents every
  function value the library creates or receives by a constructor of \<open>val\<close>, and runs the
  code by a fuel-indexed interpreter, because user callbacks may re-enter the library.

  The function objects the module itself defines are \<open>VFun\<close>; the closures it creates are
  \<open>VPromisified\<close> (the function returned by \<^verbatim>\<open>promisify\<close>), \<open>VWrapper\<close> (the
  \<^verbatim>\<open>function (cb) {...}\<close> of line 208) and \<open>VFailableCb\<close> (the
  \<^verbatim>\<open>function (err, data) {...}\<close> of line 184); the methods bound by
  \<^verbatim>\<open>_.bindAll\<close> are \<open>VThen\<close>, \<open>VCatch\<close>, \<open>VResolve\<close>, \<open>VReject\<close>.
  A \<^verbatim>\<open>Deferred\<close> has no state of its own beyond the promise it wraps, so
  \<open>VDeferred a\<close> is the Deferred of the promise at address \<open>a\<close>.
  User functions are \<open>VUser i\<close>, the \<open>i\<close>-th entry of a table of scripts that every
  interpreter function takes as its first argument. Numbers are integers.

  User code reaches the library through what the module exports (\<^verbatim>\<open>defer\<close>,
  \<^verbatim>\<open>resolved\<close>, \<^verbatim>\<open>rejected\<close>, \<^verbatim>\<open>promisify\<close>), through
  \<^verbatim>\<open>then\<close> and \<^verbatim>\<open>catch\<close> of a promise and through \<^verbatim>\<open>promise\<close>,
  \<^verbatim>\<open>resolve\<close> and \<^verbatim>\<open>reject\<close> of a Deferred. It does not write the fields of a
  promise and does not call \<^verbatim>\<open>fulfill\<close> or \<^verbatim>\<open>abandon\<close> itself. The only
  values with a \<^verbatim>\<open>then\<close> property are the library's own promises.
\<close>

datatype modfun = FResolved | FRejected | FDefer | FPromisify

datatype val =
    VUndef
  | VNull
  | VBool bool
  | VNum int
  | VStr string
  | VError string
  | VObj nat
  | VFun modfun
  | VPromise nat
  | VDeferred nat
  | VThen nat
  | VCatch nat
  | VResolve nat
  | VReject nat
  | VPromisified val val
  | VWrapper val val "val list"
  | VFailableCb val val
  | VUser nat

text \<open>JavaScript truthiness, as used by \<^verbatim>\<open>if (x)\<close>, \<^verbatim>\<open>x || y\<close> and \<^verbatim>\<open>x && y\<close>.\<close>

fun truthy :: "val \<Rightarrow> bool" where
  "truthy VUndef = False"
| "truthy VNull = False"
| "truthy (VBool b) = b"
| "truthy (VNum i) = (i \<noteq> 0)"
| "truthy (VStr s) = (s \<noteq> [])"
| "truthy _ = True"

text \<open>
  Property reads on the objects of the library's public surface: a Deferred has
  \<^verbatim>\<open>promise\<close>, \<^verbatim>\<open>resolve\<close> and \<^verbatim>\<open>reject\<close>, a promise has \<^verbatim>\<open>then\<close>
  and \<^verbatim>\<open>catch\<close>; any other read gives \<^verbatim>\<open>undefined\<close>.
\<close>

fun getprop :: "val \<Rightarrow> string \<Rightarrow> val" where
  "getprop (VDeferred d) s =
     (if s = ''promise'' then VPromise d
      else if s = ''resolve'' then VResolve d
      else if s = ''reject'' then VReject d
      else VUndef)"
| "getprop (VPromise a) s =
     (if s = ''then'' then VThen a
      else if s = ''catch'' then VCatch a
      else VUndef)"
| "getprop _ s = VUndef"

text \<open>\<^verbatim>\<open>arguments[i]\<close>: a missing argument reads as \<^verbatim>\<open>undefined\<close>.\<close>

definition arg :: "val list \<Rightarrow> nat \<Rightarrow> val" where
  "arg args i = (if i < length args then args ! i else VUndef)"

section \<open>The status tags (lines 10, 220, 225)\<close>

text \<open>
  Line 10 binds the module variables \<^verbatim>\<open>rejected\<close>, \<^verbatim>\<open>resolved\<close>,
  \<^verbatim>\<open>waiting\<close> to three fresh object literals. Lines 220 and 225 are \<^verbatim>\<open>var\<close>
  statements on the same two names \<^verbatim>\<open>resolved\<close> and \<^verbatim>\<open>rejected\<close>: they
  assign the two constructor functions to these variables while the module loads. Every
  method of the library runs after the module has loaded, so it reads the bindings as they
  are after line 225.
\<close>

record bindings =
  b_rejected :: val
  b_resolved :: val
  b_waiting :: val

definition bindings_line10 :: bindings where
  "bindings_line10 = \<lparr>b_rejected = VObj 0, b_resolved = VObj 1, b_waiting = VObj 2\<rparr>"

definition bindings_loaded :: bindings where
  "bindings_loaded =
     (bindings_line10\<lparr>b_resolved := VFun FResolved\<rparr>)\<lparr>b_rejected := VFun FRejected\<rparr>"

definition rejected :: val where
  "rejected = b_rejected bindings_loaded"

definition resolved :: val where
  "resolved = b_resolved bindings_loaded"

definition waiting :: val where
  "waiting = b_waiting bindings_loaded"

section \<open>The store\<close>

record promise =
  value' :: val
  status :: val
  owed :: val
  onFail :: val
  next' :: "nat option"

text \<open>
  \<open>calls\<close> is the trace of user-function invocations: index, \<^verbatim>\<open>this\<close>, arguments,
  oldest first.
\<close>

record state =
  heap :: "nat \<Rightarrow> promise"
  fresh :: nat
  calls :: "(nat \<times> val \<times> val list) list"

definition upd :: "nat \<Rightarrow> (promise \<Rightarrow> promise) \<Rightarrow> state \<Rightarrow> state" where
  "upd a f \<sigma> = \<sigma>\<lparr>heap := (heap \<sigma>)(a := f (heap \<sigma> a))\<rparr>"

text \<open>The constructor \<^verbatim>\<open>Promise(value, status)\<close>, lines 15-23.\<close>

definition Promise :: "val \<Rightarrow> val \<Rightarrow> promise" where
  "Promise v s =
     \<lparr>value' = v, status = (if truthy s then s else waiting),
      owed = VUndef, onFail = VUndef, next' = None\<rparr>"

definition alloc :: "promise \<Rightarrow> state \<Rightarrow> nat \<times> state" where
  "alloc p \<sigma> = (fresh \<sigma>, \<sigma>\<lparr>heap := (heap \<sigma>)(fresh \<sigma> := p), fresh := Suc (fresh \<sigma>)\<rparr>)"

text \<open>\<^verbatim>\<open>defer\<close>, lines 176-179: \<^verbatim>\<open>new Deferred(new Promise())\<close>.\<close>

definition defer_fn :: "state \<Rightarrow> nat \<times> state" where
  "defer_fn \<sigma> = alloc (Promise VUndef VUndef) \<sigma>"

text \<open>The bodies of the functions of lines 220-227.\<close>

definition resolved_fn :: "val \<Rightarrow> state \<Rightarrow> nat \<times> state" where
  "resolved_fn v \<sigma> = alloc (Promise v resolved) \<sigma>"

definition rejected_fn :: "val \<Rightarrow> state \<Rightarrow> nat \<times> state" where
  "rejected_fn e \<sigma> = alloc (Promise e rejected) \<sigma>"

text \<open>\<^verbatim>\<open>promisify\<close>, lines 198-217, returns a closure over its two arguments.\<close>

definition promisify :: "val \<Rightarrow> val \<Rightarrow> val" where
  "promisify nodeStyle context = VPromisified nodeStyle context"

definition init :: state where
  "init = \<lparr>heap = (\<lambda>_. Promise VUndef VUndef), fresh = 0, calls = []\<rparr>"

section \<open>User code\<close>

text \<open>
  A user function is a script: it returns, throws, or calls a function value and goes on
  with the result. The table \<open>U\<close> gives the script of user function \<open>i\<close> for the
  \<^verbatim>\<open>this\<close> and the arguments it is called with.
\<close>

datatype script =
    Ret val
  | Throw val
  | Call val val "val list" "val \<Rightarrow> script"

type_synonym ufuns = "nat \<Rightarrow> val \<Rightarrow> val list \<Rightarrow> script"

section \<open>Results\<close>

text \<open>
  A call returns normally or throws, in both cases with the store as it is then; \<open>None\<close>
  is the interpreter running out of fuel.
\<close>

datatype outcome = Normal val | Thrown val

type_synonym res = "(outcome \<times> state) option"

definition ret :: "val \<Rightarrow> state \<Rightarrow> res" where
  "ret v \<sigma> = Some (Normal v, \<sigma>)"

definition throw :: "val \<Rightarrow> state \<Rightarrow> res" where
  "throw e \<sigma> = Some (Thrown e, \<sigma>)"

definition andThen :: "res \<Rightarrow> (val \<Rightarrow> state \<Rightarrow> res) \<Rightarrow> res" where
  "andThen m k =
     (case m of
        None \<Rightarrow> None
      | Some (Normal v, \<sigma>) \<Rightarrow> k v \<sigma>
      | Some (Thrown e, \<sigma>) \<Rightarrow> Some (Thrown e, \<sigma>))"

text \<open>A call whose return value the source ignores: the statement yields \<^verbatim>\<open>undefined\<close>.\<close>

definition discard :: "res \<Rightarrow> res" where
  "discard m = andThen m (\<lambda>_ \<sigma>. ret VUndef \<sigma>)"

definition typeError :: "state \<Rightarrow> res" where
  "typeError \<sigma> = throw (VError ''TypeError'') \<sigma>"

section \<open>The library\<close>

text \<open>
  The methods call each other and the user's callbacks, and the callbacks call the methods
  again, so the recursion is tied by fuel: every function below takes the interpreter
  \<open>rec\<close> for the calls it makes, and \<open>exec\<close> runs an operation with \<open>rec\<close>
  the interpreter of one unit of fuel less. An operation names a function of the source
  with the receiver (an address) and the arguments of the call.
\<close>

datatype op =
    Then nat val val
  | Catch nat val
  | Fulfill nat val bool
  | Abandon nat val bool
  | Resolve nat val
  | Reject nat val
  | Failable val val val
  | Promisified val val "val list"
  | CallF val val "val list"
  | Run script

type_synonym interp = "op \<Rightarrow> state \<Rightarrow> res"

text \<open>\<^verbatim>\<open>Promise.prototype.then\<close>, lines 28-55.\<close>

definition Promise_then :: "interp \<Rightarrow> nat \<Rightarrow> val \<Rightarrow> val \<Rightarrow> state \<Rightarrow> res" where
  "Promise_then rec a success failure \<sigma> =
     (if truthy (owed (heap \<sigma> a))
      then throw (VError ''Tried to then a promise twice.'') \<sigma>
      else
        let \<sigma>1 = upd a (\<lambda>p. p\<lparr>owed := success\<rparr>) \<sigma>;
            (d, \<sigma>2) = defer_fn \<sigma>1;
            \<sigma>3 = upd a (\<lambda>p. p\<lparr>next' := Some d\<rparr>) \<sigma>2
        in andThen
             (if status (heap \<sigma>3 a) = resolved
              then discard (rec (Fulfill a (value' (heap \<sigma>3 a)) True) \<sigma>3)
              else ret VUndef \<sigma>3)
             (\<lambda>_ \<sigma>4. andThen
                (if truthy failure
                 then discard (rec (Catch a failure) \<sigma>4)
                 else ret VUndef \<sigma>4)
                (\<lambda>_ \<sigma>5. case next' (heap \<sigma>5 a) of
                           None \<Rightarrow> typeError \<sigma>5
                         | Some d' \<Rightarrow> ret (getprop (VDeferred d') ''promise'') \<sigma>5)))"

text \<open>\<^verbatim>\<open>Promise.prototype.catch\<close>, lines 62-78.\<close>

definition Promise_catch :: "interp \<Rightarrow> nat \<Rightarrow> val \<Rightarrow> state \<Rightarrow> res" where
  "Promise_catch rec a failure \<sigma> =
     (if truthy (onFail (heap \<sigma> a))
      then throw (VError ''Tried to catch a promise twice.'') \<sigma>
      else
        let \<sigma>1 = upd a (\<lambda>p. p\<lparr>onFail := failure\<rparr>) \<sigma>
        in if status (heap \<sigma>1 a) = rejected
           then discard (rec (Abandon a (value' (heap \<sigma>1 a)) True) \<sigma>1)
           else ret VUndef \<sigma>1)"

text \<open>
  \<^verbatim>\<open>Promise.prototype.fulfill\<close>, lines 84-113. \<^verbatim>\<open>this.owed(data)\<close> is a method
  call, so the callback's \<^verbatim>\<open>this\<close> is the promise. \<^verbatim>\<open>this.value\<close> and
  \<^verbatim>\<open>this.next\<close> are read again at each use, after the calls before it.
\<close>

definition Promise_fulfill :: "interp \<Rightarrow> nat \<Rightarrow> val \<Rightarrow> bool \<Rightarrow> state \<Rightarrow> res" where
  "Promise_fulfill rec a data force \<sigma> =
     (if status (heap \<sigma> a) \<noteq> waiting \<and> \<not> force
      then throw (VError ''Tried to fulfill a promise twice.'') \<sigma>
      else
        let \<sigma>1 = upd a (\<lambda>p. p\<lparr>status := resolved\<rparr>) \<sigma>
        in if truthy (owed (heap \<sigma>1 a))
           then andThen (rec (CallF (owed (heap \<sigma>1 a)) (VPromise a) [data]) \<sigma>1)
             (\<lambda>r \<sigma>2.
                let \<sigma>3 = upd a (\<lambda>p. p\<lparr>value' := r\<rparr>) \<sigma>2
                in if truthy (value' (heap \<sigma>3 a))
                      \<and> truthy (getprop (value' (heap \<sigma>3 a)) ''then'')
                   then andThen
                      (case next' (heap \<sigma>3 a) of
                         None \<Rightarrow> typeError \<sigma>3
                       | Some d \<Rightarrow>
                           discard (rec (CallF (getprop (value' (heap \<sigma>3 a)) ''then'')
                                      (value' (heap \<sigma>3 a))
                                      [getprop (VDeferred d) ''resolve'']) \<sigma>3))
                      (\<lambda>_ \<sigma>4.
                         case next' (heap \<sigma>4 a) of
                           None \<Rightarrow> typeError \<sigma>4
                         | Some d \<Rightarrow>
                             discard (rec (CallF (getprop (value' (heap \<sigma>4 a)) ''catch'')
                                        (value' (heap \<sigma>4 a))
                                        [getprop (VDeferred d) ''reject'']) \<sigma>4))
                   else ret VUndef \<sigma>3)
           else ret VUndef \<sigma>1)"

text \<open>\<^verbatim>\<open>Promise.prototype.abandon\<close>, lines 118-141.\<close>

definition Promise_abandon :: "interp \<Rightarrow> nat \<Rightarrow> val \<Rightarrow> bool \<Rightarrow> state \<Rightarrow> res" where
  "Promise_abandon rec a error force \<sigma> =
     (if status (heap \<sigma> a) \<noteq> waiting \<and> \<not> force
      then throw (VError ''Tried to abandon a promise twice.'') \<sigma>
      else
        let \<sigma>1 = upd a (\<lambda>p. p\<lparr>status := rejected\<rparr>) \<sigma>
        in if truthy (onFail (heap \<sigma>1 a))
           then
             let \<sigma>2 = upd a (\<lambda>p. p\<lparr>value' := error\<rparr>) \<sigma>1
             in discard (rec (CallF (onFail (heap \<sigma>2 a)) (VPromise a) [error]) \<sigma>2)
           else
             (case next' (heap \<sigma>1 a) of
                Some d \<Rightarrow> discard (rec (Reject d error) \<sigma>1)
              | None \<Rightarrow> ret VUndef \<sigma>1))"

text \<open>\<^verbatim>\<open>Deferred.prototype.resolve\<close> and \<^verbatim>\<open>reject\<close>, lines 159-171.\<close>

definition Deferred_resolve :: "interp \<Rightarrow> nat \<Rightarrow> val \<Rightarrow> state \<Rightarrow> res" where
  "Deferred_resolve rec d data \<sigma> = discard (rec (Fulfill d data False) \<sigma>)"

definition Deferred_reject :: "interp \<Rightarrow> nat \<Rightarrow> val \<Rightarrow> state \<Rightarrow> res" where
  "Deferred_reject rec d error \<sigma> = discard (rec (Abandon d error False) \<sigma>)"

text \<open>
  \<^verbatim>\<open>failable\<close>, lines 183-195, and the closure it passes to \<^verbatim>\<open>nodeStyle\<close>
  (lines 184-192).
\<close>

definition failable :: "interp \<Rightarrow> val \<Rightarrow> val \<Rightarrow> val \<Rightarrow> state \<Rightarrow> res" where
  "failable rec nodeStyle error success \<sigma> =
     discard (rec (CallF nodeStyle VUndef [VFailableCb error success]) \<sigma>)"

definition failable_cb :: "interp \<Rightarrow> val \<Rightarrow> val \<Rightarrow> val list \<Rightarrow> state \<Rightarrow> res" where
  "failable_cb rec error success args \<sigma> =
     (if truthy (arg args 0)
      then discard (rec (CallF error VUndef [arg args 0]) \<sigma>)
      else discard (rec (CallF success VUndef [arg args 1]) \<sigma>))"

text \<open>
  The function that \<^verbatim>\<open>promisify\<close> returns (lines 200-216) and the wrapper of
  line 208, \<^verbatim>\<open>nodeStyle.apply(context, args.concat([cb]))\<close>.
\<close>

definition promisified :: "interp \<Rightarrow> val \<Rightarrow> val \<Rightarrow> val list \<Rightarrow> state \<Rightarrow> res" where
  "promisified rec nodeStyle context args \<sigma> =
     (let (d, \<sigma>1) = defer_fn \<sigma>
      in andThen
           (rec (Failable (VWrapper nodeStyle context args)
              (getprop (VDeferred d) ''reject'') (getprop (VDeferred d) ''resolve'')) \<sigma>1)
           (\<lambda>_ \<sigma>2. ret (getprop (VDeferred d) ''promise'') \<sigma>2))"

definition wrapper :: "interp \<Rightarrow> val \<Rightarrow> val \<Rightarrow> val list \<Rightarrow> val list \<Rightarrow> state \<Rightarrow> res" where
  "wrapper rec nodeStyle context args0 args \<sigma> =
     discard (rec (CallF nodeStyle context (args0 @ [arg args 0])) \<sigma>)"

text \<open>
  Calling a function value. A user function is logged and its script run; the bound
  methods and the module's functions run the code above; anything else is not callable.
\<close>

fun call :: "ufuns \<Rightarrow> interp \<Rightarrow> val \<Rightarrow> val \<Rightarrow> val list \<Rightarrow> state \<Rightarrow> res" where
  "call U rec (VUser i) this args \<sigma> =
     rec (Run (U i this args)) (\<sigma>\<lparr>calls := calls \<sigma> @ [(i, this, args)]\<rparr>)"
| "call U rec (VThen a) this args \<sigma> = rec (Then a (arg args 0) (arg args 1)) \<sigma>"
| "call U rec (VCatch a) this args \<sigma> = rec (Catch a (arg args 0)) \<sigma>"
| "call U rec (VResolve d) this args \<sigma> = rec (Resolve d (arg args 0)) \<sigma>"
| "call U rec (VReject d) this args \<sigma> = rec (Reject d (arg args 0)) \<sigma>"
| "call U rec (VFun FDefer) this args \<sigma> =
     (let (d, \<sigma>1) = defer_fn \<sigma> in ret (VDeferred d) \<sigma>1)"
| "call U rec (VFun FResolved) this args \<sigma> =
     (let (a, \<sigma>1) = resolved_fn (arg args 0) \<sigma> in ret (VPromise a) \<sigma>1)"
| "call U rec (VFun FRejected) this args \<sigma> =
     (let (a, \<sigma>1) = rejected_fn (arg args 0) \<sigma> in ret (VPromise a) \<sigma>1)"
| "call U rec (VFun FPromisify) this args \<sigma> =
     ret (promisify (arg args 0) (arg args 1)) \<sigma>"
| "call U rec (VPromisified nodeStyle context) this args \<sigma> =
     rec (Promisified nodeStyle context args) \<sigma>"
| "call U rec (VWrapper nodeStyle context args0) this args \<sigma> =
     wrapper rec nodeStyle context args0 args \<sigma>"
| "call U rec (VFailableCb error success) this args \<sigma> =
     failable_cb rec error success args \<sigma>"
| "call U rec f this args \<sigma> = typeError \<sigma>"

fun run :: "interp \<Rightarrow> script \<Rightarrow> state \<Rightarrow> res" where
  "run rec (Ret v) \<sigma> = ret v \<sigma>"
| "run rec (Throw e) \<sigma> = throw e \<sigma>"
| "run rec (Call f this args k) \<sigma> =
     andThen (rec (CallF f this args) \<sigma>) (\<lambda>v \<sigma>1. rec (Run (k v)) \<sigma>1)"

fun step :: "ufuns \<Rightarrow> interp \<Rightarrow> op \<Rightarrow> state \<Rightarrow> res" where
  "step U rec (Then a success failure) \<sigma> = Promise_then rec a success failure \<sigma>"
| "step U rec (Catch a failure) \<sigma> = Promise_catch rec a failure \<sigma>"
| "step U rec (Fulfill a data force) \<sigma> = Promise_fulfill rec a data force \<sigma>"
| "step U rec (Abandon a error force) \<sigma> = Promise_abandon rec a error force \<sigma>"
| "step U rec (Resolve d data) \<sigma> = Deferred_resolve rec d data \<sigma>"
| "step U rec (Reject d error) \<sigma> = Deferred_reject rec d error \<sigma>"
| "step U rec (Failable nodeStyle error success) \<sigma> = failable rec nodeStyle error success \<sigma>"
| "step U rec (Promisified nodeStyle context args) \<sigma> =
     promisified rec nodeStyle context args \<sigma>"
| "step U rec (CallF f this args) \<sigma> = call U rec f this args \<sigma>"
| "step U rec (Run s) \<sigma> = run rec s \<sigma>"

primrec exec :: "ufuns \<Rightarrow> nat \<Rightarrow> op \<Rightarrow> state \<Rightarrow> res" where
  "exec U 0 = (\<lambda>opn \<sigma>. None)"
| "exec U (Suc n) = step U (exec U n)"

section \<open>Invariants of the store\<close>

text \<open>
  \<open>evolves \<sigma> \<sigma>'\<close> relates the store before a call to a store after it: no promise is
  lost, a promise that has left \<^verbatim>\<open>waiting\<close> keeps its status, a rejected promise keeps
  its value, a truthy registered handler stays, and every promise allocated in between
  carries one of the three tags.
\<close>

definition is_tag :: "val \<Rightarrow> bool" where
  "is_tag s \<longleftrightarrow> s = waiting \<or> s = resolved \<or> s = rejected"

definition cell_evolves :: "promise \<Rightarrow> promise \<Rightarrow> bool" where
  "cell_evolves p q \<longleftrightarrow>
     (status p \<noteq> waiting \<longrightarrow> status q = status p) \<and>
     (status p = waiting \<longrightarrow> is_tag (status q)) \<and>
     (status p = rejected \<longrightarrow> value' q = value' p) \<and>
     (truthy (owed p) \<longrightarrow> owed q = owed p) \<and>
     (truthy (onFail p) \<longrightarrow> onFail q = onFail p)"

definition evolves :: "state \<Rightarrow> state \<Rightarrow> bool" where
  "evolves \<sigma> \<sigma>' \<longleftrightarrow>
     fresh \<sigma> \<le> fresh \<sigma>' \<and>
     (\<forall>a<fresh \<sigma>. cell_evolves (heap \<sigma> a) (heap \<sigma>' a)) \<and>
     (\<forall>a. fresh \<sigma> \<le> a \<and> a < fresh \<sigma>' \<longrightarrow> is_tag (status (heap \<sigma>' a)))"

text \<open>
  The two internal operations take a \<^verbatim>\<open>force\<close> flag. The library passes
  \<^verbatim>\<open>true\<close> only at line 47 (after testing \<^verbatim>\<open>status === resolved\<close>) and at line 76
  (after testing \<^verbatim>\<open>status === rejected\<close>, with \<^verbatim>\<open>this.value\<close> as the error).
\<close>

fun forced_ok :: "op \<Rightarrow> state \<Rightarrow> bool" where
  "forced_ok (Fulfill a d force) \<sigma> = (force \<longrightarrow> status (heap \<sigma> a) = resolved)"
| "forced_ok (Abandon a e force) \<sigma> =
     (force \<longrightarrow> status (heap \<sigma> a) = rejected \<and> e = value' (heap \<sigma> a))"
| "forced_ok opn \<sigma> = True"

definition evolving :: "interp \<Rightarrow> bool" where
  "evolving rec \<longleftrightarrow>
     (\<forall>opn \<sigma> r \<sigma>'. rec opn \<sigma> = Some (r, \<sigma>') \<longrightarrow> forced_ok opn \<sigma> \<longrightarrow> evolves \<sigma> \<sigma>')"

definition res_evolves :: "state \<Rightarrow> res \<Rightarrow> bool" where
  "res_evolves \<sigma> m \<longleftrightarrow> (\<forall>r \<sigma>'. m = Some (r, \<sigma>') \<longrightarrow> evolves \<sigma> \<sigma>')"

section \<open>Chains of promises\<close>

text \<open>
  \<open>unhandled_path \<sigma> a bs\<close>: starting at \<open>a\<close>, each promise but the last of
  \<open>a # bs\<close> is waiting, has no failure handler, and has the following one as the promise
  of its \<^verbatim>\<open>next\<close>. \<open>reject_all\<close> sets the status of the listed promises to
  \<^verbatim>\<open>rejected\<close>; \<open>registered_then\<close> is the store after lines 37 and 41 of
  \<^verbatim>\<open>then\<close>.
\<close>

fun unhandled_path :: "state \<Rightarrow> nat \<Rightarrow> nat list \<Rightarrow> bool" where
  "unhandled_path \<sigma> a [] = True"
| "unhandled_path \<sigma> a (b # bs) =
     (status (heap \<sigma> a) = waiting \<and> \<not> truthy (onFail (heap \<sigma> a))
      \<and> next' (heap \<sigma> a) = Some b \<and> unhandled_path \<sigma> b bs)"

definition reject_all :: "nat list \<Rightarrow> state \<Rightarrow> state" where
  "reject_all as \<sigma> = fold (\<lambda>b. upd b (\<lambda>p. p\<lparr>status := rejected\<rparr>)) as \<sigma>"

definition registered_then :: "nat \<Rightarrow> val \<Rightarrow> state \<Rightarrow> state" where
  "registered_then a s \<sigma> =
     upd a (\<lambda>p. p\<lparr>next' := Some (fresh \<sigma>)\<rparr>) (snd (defer_fn (upd a (\<lambda>p. p\<lparr>owed := s\<rparr>) \<sigma>)))"

section \<open>Example programs\<close>

text \<open>The user functions \<^verbatim>\<open>x => x\<close>: every index returns its first argument.\<close>

definition U_echo :: ufuns where
  "U_echo i this args = Ret (arg args 0)"

text \<open>
  \<^verbatim>\<open>var a = defer(); a.promise.then(f0).catch(f1); return a\<close>, and the store it
  leaves.
\<close>

definition chain_prog :: script where
  "chain_prog =
     Call (VFun FDefer) VUndef [] (\<lambda>d.
     Call (getprop (getprop d ''promise'') ''then'') (getprop d ''promise'') [VUser 0] (\<lambda>p.
     Call (getprop p ''catch'') p [VUser 1] (\<lambda>_. Ret d)))"

definition chain_state :: state where
  "chain_state =
     upd 1 (\<lambda>p. p\<lparr>onFail := VUser 1\<rparr>) (registered_then 0 (VUser 0) (snd (defer_fn init)))"

text \<open>
  \<^verbatim>\<open>var a = defer(); a.promise.then(f0).then(f0); return a\<close>: a chain with no
  failure handler anywhere.
\<close>

definition nocatch_prog :: script where
  "nocatch_prog =
     Call (VFun FDefer) VUndef [] (\<lambda>d.
     Call (getprop (getprop d ''promise'') ''then'') (getprop d ''promise'') [VUser 0] (\<lambda>p.
     Call (getprop p ''then'') p [VUser 0] (\<lambda>_. Ret d)))"

definition nocatch_state :: state where
  "nocatch_state =
     registered_then 1 (VUser 0) (registered_then 0 (VUser 0) (snd (defer_fn init)))"

text \<open>
  \<^verbatim>\<open>f0 = function () { return resolved(1).then(f1) }\<close>,
  \<^verbatim>\<open>f1 = function (n) { return n + 1 }\<close>, every other index \<^verbatim>\<open>x => x\<close>.
\<close>

definition U_flat :: ufuns where
  "U_flat i this args =
     (if i = 0
      then Call (VFun FResolved) VUndef [VNum 1] (\<lambda>r.
           Call (getprop r ''then'') r [VUser 1] (\<lambda>q. Ret q))
      else if i = 1
      then (case arg args 0 of VNum k \<Rightarrow> Ret (VNum (k + 1)) | _ \<Rightarrow> Ret VUndef)
      else Ret (arg args 0))"

text \<open>
  \<^verbatim>\<open>var a = defer(); a.promise.then(f0).then(f2); a.resolve(7)\<close> and
  \<^verbatim>\<open>var a = defer(); a.promise.then(f1).then(f2); a.resolve(1)\<close>.
\<close>

definition flatten_prog :: script where
  "flatten_prog =
     Call (VFun FDefer) VUndef [] (\<lambda>d.
     Call (getprop (getprop d ''promise'') ''then'') (getprop d ''promise'') [VUser 0] (\<lambda>p.
     Call (getprop p ''then'') p [VUser 2] (\<lambda>_.
     Call (getprop d ''resolve'') d [VNum 7] (\<lambda>_. Ret p))))"

definition plain_prog :: script where
  "plain_prog =
     Call (VFun FDefer) VUndef [] (\<lambda>d.
     Call (getprop (getprop d ''promise'') ''then'') (getprop d ''promise'') [VUser 1] (\<lambda>p.
     Call (getprop p ''then'') p [VUser 2] (\<lambda>_.
     Call (getprop d ''resolve'') d [VNum 1] (\<lambda>_. Ret p))))"

text \<open>
  Registration after and before settlement:
  \<^verbatim>\<open>var d = defer(); d.resolve(5); d.promise.then(f0)\<close> against
  \<^verbatim>\<open>var d = defer(); d.promise.then(f0); d.resolve(5)\<close>, the same with
  \<^verbatim>\<open>d.reject("boom")\<close> and \<^verbatim>\<open>d.promise.catch(f1)\<close>, and the same with
  \<^verbatim>\<open>d.reject("boom")\<close> and \<^verbatim>\<open>d.promise.then(f0).catch(f1)\<close>.
\<close>

definition late_then_prog :: script where
  "late_then_prog =
     Call (VFun FDefer) VUndef [] (\<lambda>d.
     Call (getprop d ''resolve'') d [VNum 5] (\<lambda>_.
     Call (getprop (getprop d ''promise'') ''then'') (getprop d ''promise'') [VUser 0] (\<lambda>p.
     Ret p)))"

definition early_then_prog :: script where
  "early_then_prog =
     Call (VFun FDefer) VUndef [] (\<lambda>d.
     Call (getprop (getprop d ''promise'') ''then'') (getprop d ''promise'') [VUser 0] (\<lambda>p.
     Call (getprop d ''resolve'') d [VNum 5] (\<lambda>_.
     Ret p)))"

definition late_chain_prog :: script where
  "late_chain_prog =
     Call (VFun FDefer) VUndef [] (\<lambda>d.
     Call (getprop d ''reject'') d [VStr ''boom''] (\<lambda>_.
     Call (getprop (getprop d ''promise'') ''then'') (getprop d ''promise'') [VUser 0] (\<lambda>p.
     Call (getprop p ''catch'') p [VUser 1] (\<lambda>_. Ret d))))"

definition early_chain_prog :: script where
  "early_chain_prog =
     Call (VFun FDefer) VUndef [] (\<lambda>d.
     Call (getprop (getprop d ''promise'') ''then'') (getprop d ''promise'') [VUser 0] (\<lambda>p.
     Call (getprop p ''catch'') p [VUser 1] (\<lambda>_.
     Call (getprop d ''reject'') d [VStr ''boom''] (\<lambda>_. Ret d))))"

definition late_catch_prog :: script where
  "late_catch_prog =
     Call (VFun FDefer) VUndef [] (\<lambda>d.
     Call (getprop d ''reject'') d [VStr ''boom''] (\<lambda>_.
     Call (getprop (getprop d ''promise'') ''catch'') (getprop d ''promise'') [VUser 1] (\<lambda>_.
     Ret d)))"

definition early_catch_prog :: script where
  "early_catch_prog =
     Call (VFun FDefer) VUndef [] (\<lambda>d.
     Call (getprop (getprop d ''promise'') ''catch'') (getprop d ''promise'') [VUser 1] (\<lambda>_.
     Call (getprop d ''reject'') d [VStr ''boom''] (\<lambda>_.
     Ret d)))"

text \<open>
  Node-style functions for \<^verbatim>\<open>promisify\<close>:
  \<^verbatim>\<open>function (cb) { throw "nope" }\<close> and
  \<^verbatim>\<open>function (cb) { cb(null, 1); cb(null, 2) }\<close>.
\<close>

definition U_throw :: ufuns where
  "U_throw i this args = Throw (VStr ''nope'')"

definition U_twice :: ufuns where
  "U_twice i this args =
     Call (arg args 0) VUndef [VNull, VNum 1] (\<lambda>_.
     Call (arg args 0) VUndef [VNull, VNum 2] (\<lambda>_. Ret VUndef))"

text \<open>
  \<^verbatim>\<open>var p = promisify(f0, null)(); p.then(f1); p.catch(f2)\<close>, after which the
  completion callback that \<^verbatim>\<open>f0\<close> received fires with the two given arguments.
  With \<open>U_echo\<close>, \<^verbatim>\<open>f0\<close> returns without calling it.
\<close>

definition adapter_prog :: "val \<Rightarrow> val \<Rightarrow> script" where
  "adapter_prog err data =
     Call (VFun FPromisify) VUndef [VUser 0, VNull] (\<lambda>g.
     Call g VUndef [] (\<lambda>p.
     Call (getprop p ''then'') p [VUser 1] (\<lambda>_.
     Call (getprop p ''catch'') p [VUser 2] (\<lambda>_.
     Call (VFailableCb (VReject 0) (VResolve 0)) VUndef [err, data] (\<lambda>_. Ret p)))))"

section \<open>Basic facts\<close>

lemma andThen_simps [simp]:
  "andThen None k = None"
  "andThen (Some (Normal v, \<sigma>)) k = k v \<sigma>"
  "andThen (Some (Thrown e, \<sigma>)) k = Some (Thrown e, \<sigma>)"
  "andThen (ret v \<sigma>) k = k v \<sigma>"
  "andThen (throw e \<sigma>) k = throw e \<sigma>"
  by (simp_all add: andThen_def ret_def throw_def)

lemma andThen_SomeE:
  assumes "andThen m k = Some (r, \<sigma>')"
  obtains (thrown) e where "m = Some (Thrown e, \<sigma>')" "r = Thrown e"
        | (normal) v \<sigma>1 where "m = Some (Normal v, \<sigma>1)" "k v \<sigma>1 = Some (r, \<sigma>')"
  using assms by (auto simp: andThen_def split: option.splits outcome.splits)

lemma discard_simps [simp]:
  "discard None = None"
  "discard (Some (Normal v, \<sigma>)) = Some (Normal VUndef, \<sigma>)"
  "discard (Some (Thrown e, \<sigma>)) = Some (Thrown e, \<sigma>)"
  "discard (ret v \<sigma>) = ret VUndef \<sigma>"
  "discard (throw e \<sigma>) = throw e \<sigma>"
  "discard (discard m) = discard m"
  by (auto simp: discard_def andThen_def ret_def throw_def split: option.splits outcome.splits)

lemma discard_SomeD:
  "discard m = Some (r, \<sigma>') \<Longrightarrow> \<exists>r0. m = Some (r0, \<sigma>')"
  by (auto simp: discard_def andThen_def ret_def split: option.splits outcome.splits)

lemma tags_distinct [simp]:
  "waiting \<noteq> resolved" "waiting \<noteq> rejected" "resolved \<noteq> rejected"
  "resolved \<noteq> waiting" "rejected \<noteq> waiting" "rejected \<noteq> resolved"
  by (simp_all add: waiting_def resolved_def rejected_def bindings_loaded_def bindings_line10_def)

lemma is_tag_simps [simp]: "is_tag waiting" "is_tag resolved" "is_tag rejected"
  by (simp_all add: is_tag_def)

lemma cell_evolves_refl [simp]: "cell_evolves p p"
  by (simp add: cell_evolves_def)

lemma cell_evolves_trans: "cell_evolves p q \<Longrightarrow> cell_evolves q r \<Longrightarrow> cell_evolves p r"
  by (auto simp: cell_evolves_def is_tag_def)

lemma evolves_refl [simp]: "evolves \<sigma> \<sigma>"
  by (auto simp: evolves_def)

lemma cell_evolves_tag: "cell_evolves p q \<Longrightarrow> is_tag (status p) \<Longrightarrow> is_tag (status q)"
  by (auto simp: cell_evolves_def)

lemma evolves_trans:
  assumes "evolves \<sigma> \<sigma>1" and "evolves \<sigma>1 \<sigma>2"
  shows "evolves \<sigma> \<sigma>2"
proof -
  have le: "fresh \<sigma> \<le> fresh \<sigma>1" "fresh \<sigma>1 \<le> fresh \<sigma>2"
    using assms by (simp_all add: evolves_def)
  have old: "cell_evolves (heap \<sigma> a) (heap \<sigma>2 a)" if "a < fresh \<sigma>" for a
  proof -
    from that le have "a < fresh \<sigma>1" by simp
    with assms(2) have "cell_evolves (heap \<sigma>1 a) (heap \<sigma>2 a)" by (simp add: evolves_def)
    moreover from that assms(1) have "cell_evolves (heap \<sigma> a) (heap \<sigma>1 a)"
      by (simp add: evolves_def)
    ultimately show ?thesis by (blast intro: cell_evolves_trans)
  qed
  have new: "is_tag (status (heap \<sigma>2 a))" if "fresh \<sigma> \<le> a" "a < fresh \<sigma>2" for a
  proof (cases "a < fresh \<sigma>1")
    case True
    with that assms(1) have "is_tag (status (heap \<sigma>1 a))" by (simp add: evolves_def)
    moreover from True assms(2) have "cell_evolves (heap \<sigma>1 a) (heap \<sigma>2 a)"
      by (simp add: evolves_def)
    ultimately show ?thesis by (blast intro: cell_evolves_tag)
  next
    case False
    with that assms(2) show ?thesis by (simp add: evolves_def)
  qed
  from le old new show ?thesis by (simp add: evolves_def)
qed

lemma evolvingD:
  "evolving rec \<Longrightarrow> rec opn \<sigma> = Some (r, \<sigma>') \<Longrightarrow> forced_ok opn \<sigma> \<Longrightarrow> evolves \<sigma> \<sigma>'"
  by (auto simp: evolving_def)

lemma evolves_upd:
  assumes "evolves \<sigma> \<tau>" and "a < fresh \<sigma> \<Longrightarrow> cell_evolves (heap \<sigma> a) (f (heap \<tau> a))"
    and "fresh \<sigma> \<le> a \<Longrightarrow> a < fresh \<tau> \<Longrightarrow> is_tag (status (f (heap \<tau> a)))"
  shows "evolves \<sigma> (upd a f \<tau>)"
  using assms unfolding evolves_def upd_def by simp

lemma evolves_alloc: "evolves \<sigma> \<tau> \<Longrightarrow> is_tag (status p) \<Longrightarrow> evolves \<sigma> (snd (alloc p \<tau>))"
  unfolding evolves_def alloc_def by auto

lemma evolves_calls: "evolves \<sigma> \<tau> \<Longrightarrow> evolves \<sigma> (\<tau>\<lparr>calls := c\<rparr>)"
  unfolding evolves_def by simp

lemma evolves_cell: "evolves \<sigma> \<tau> \<Longrightarrow> a < fresh \<sigma> \<Longrightarrow> cell_evolves (heap \<sigma> a) (heap \<tau> a)"
  by (simp add: evolves_def)

lemma evolves_new:
  "evolves \<sigma> \<tau> \<Longrightarrow> fresh \<sigma> \<le> a \<Longrightarrow> a < fresh \<tau> \<Longrightarrow> is_tag (status (heap \<tau> a))"
  by (simp add: evolves_def)

lemma Promise_status_tag [simp]:
  "is_tag (status (Promise v VUndef))" "is_tag (status (Promise v resolved))"
  "is_tag (status (Promise v rejected))"
  by (simp_all add: Promise_def resolved_def rejected_def bindings_loaded_def bindings_line10_def
        is_tag_def)

lemma upd_simps [simp]:
  "heap (upd a f \<sigma>) b = (if b = a then f (heap \<sigma> a) else heap \<sigma> b)"
  "fresh (upd a f \<sigma>) = fresh \<sigma>"
  "calls (upd a f \<sigma>) = calls \<sigma>"
  by (simp_all add: upd_def)

section \<open>The invariant holds of every operation\<close>

text \<open>
  Each function of the library keeps \<open>evolves\<close> if the interpreter it calls does; the
  interpreter of any fuel then keeps it, by induction on the fuel.
\<close>

lemma res_evolves_ret: "evolves \<sigma> \<tau> \<Longrightarrow> res_evolves \<sigma> (ret v \<tau>)"
  by (simp add: res_evolves_def ret_def)

lemma res_evolves_throw: "evolves \<sigma> \<tau> \<Longrightarrow> res_evolves \<sigma> (throw e \<tau>)"
  by (simp add: res_evolves_def throw_def)

lemma res_evolves_typeError: "evolves \<sigma> \<tau> \<Longrightarrow> res_evolves \<sigma> (typeError \<tau>)"
  by (simp add: typeError_def res_evolves_throw)

lemma res_evolves_andThen:
  assumes "res_evolves \<sigma> m"
    and "\<And>v \<tau>. evolves \<sigma> \<tau> \<Longrightarrow> res_evolves \<sigma> (k v \<tau>)"
  shows "res_evolves \<sigma> (andThen m k)"
  using assms unfolding res_evolves_def
  by (auto elim!: andThen_SomeE)

lemma res_evolves_discard: "res_evolves \<sigma> m \<Longrightarrow> res_evolves \<sigma> (discard m)"
  unfolding res_evolves_def by (auto dest: discard_SomeD)

lemma res_evolves_rec:
  "evolving rec \<Longrightarrow> evolves \<sigma> \<tau> \<Longrightarrow> forced_ok opn \<tau> \<Longrightarrow> res_evolves \<sigma> (rec opn \<tau>)"
  unfolding res_evolves_def by (blast intro: evolves_trans evolvingD)

lemmas res_evolves_intros = res_evolves_ret res_evolves_throw res_evolves_typeError
  res_evolves_andThen res_evolves_discard

lemma upd_upd [simp]: "upd a g (upd a f \<sigma>) = upd a (\<lambda>p. g (f p)) \<sigma>"
  by (simp add: upd_def)

lemma evolves_upd_local:
  "cell_evolves (heap \<tau> a) (f (heap \<tau> a)) \<Longrightarrow> evolves \<tau> (upd a f \<tau>)"
  by (rule evolves_upd) simp_all

lemma evolves_upd_value:
  assumes "evolves \<sigma> \<tau>" and "status (heap \<sigma> a) \<noteq> rejected"
  shows "evolves \<sigma> (upd a (\<lambda>p. p\<lparr>value' := v\<rparr>) \<tau>)"
proof (rule evolves_upd[OF assms(1)])
  assume "a < fresh \<sigma>"
  with assms(1) have "cell_evolves (heap \<sigma> a) (heap \<tau> a)" by (rule evolves_cell)
  with assms(2) show "cell_evolves (heap \<sigma> a) ((heap \<tau> a)\<lparr>value' := v\<rparr>)"
    by (simp add: cell_evolves_def)
next
  assume "fresh \<sigma> \<le> a" "a < fresh \<tau>"
  with assms(1) show "is_tag (status ((heap \<tau> a)\<lparr>value' := v\<rparr>))"
    by (simp add: evolves_new)
qed

lemma Promise_abandon_evolves:
  assumes R: "evolving rec" and ok: "forced_ok (Abandon a e force) \<tau>"
  shows "res_evolves \<tau> (Promise_abandon rec a e force \<tau>)"
proof -
  have 1: "evolves \<tau> (upd a (\<lambda>p. p\<lparr>status := rejected\<rparr>) \<tau>)"
    if "\<not> (status (heap \<tau> a) \<noteq> waiting \<and> \<not> force)"
    using that ok by (intro evolves_upd_local) (auto simp: cell_evolves_def)
  have 2: "evolves \<tau> (upd a (\<lambda>p. p\<lparr>status := rejected, value' := e\<rparr>) \<tau>)"
    if "\<not> (status (heap \<tau> a) \<noteq> waiting \<and> \<not> force)"
    using that ok by (intro evolves_upd_local) (auto simp: cell_evolves_def)
  show ?thesis
    unfolding Promise_abandon_def Let_def
    using R 1 2
    by (auto intro!: res_evolves_intros res_evolves_rec[OF R] split: option.splits)
qed

lemma Promise_fulfill_evolves:
  assumes R: "evolving rec" and ok: "forced_ok (Fulfill a d force) \<tau>"
  shows "res_evolves \<tau> (Promise_fulfill rec a d force \<tau>)"
proof -
  have nr: "status (heap \<tau> a) \<noteq> rejected"
    if "\<not> (status (heap \<tau> a) \<noteq> waiting \<and> \<not> force)"
    using that ok by auto
  have 1: "evolves \<tau> (upd a (\<lambda>p. p\<lparr>status := resolved\<rparr>) \<tau>)"
    if "\<not> (status (heap \<tau> a) \<noteq> waiting \<and> \<not> force)"
    using that ok by (intro evolves_upd_local) (auto simp: cell_evolves_def)
  show ?thesis
    unfolding Promise_fulfill_def Let_def
    using R 1 nr
    by (auto intro!: res_evolves_intros res_evolves_rec[OF R] evolves_upd_value split: option.splits)
qed

lemma Promise_catch_evolves:
  assumes R: "evolving rec"
  shows "res_evolves \<tau> (Promise_catch rec a failure \<tau>)"
proof -
  have 1: "evolves \<tau> (upd a (\<lambda>p. p\<lparr>onFail := failure\<rparr>) \<tau>)"
    if "\<not> truthy (onFail (heap \<tau> a))"
    using that by (intro evolves_upd_local) (auto simp: cell_evolves_def)
  show ?thesis
    unfolding Promise_catch_def Let_def
    using R 1
    by (auto intro!: res_evolves_intros res_evolves_rec[OF R] split: option.splits)
qed

lemma Promise_then_evolves:
  assumes R: "evolving rec"
  shows "res_evolves \<tau> (Promise_then rec a success failure \<tau>)"
proof -
  have 1: "evolves \<tau> (upd a (\<lambda>p. p\<lparr>next' := Some d\<rparr>)
              (snd (defer_fn (upd a (\<lambda>p. p\<lparr>owed := success\<rparr>) \<tau>))))"
    if "\<not> truthy (owed (heap \<tau> a))" for d
    unfolding defer_fn_def
    apply (rule evolves_upd)
      apply (rule evolves_alloc)
       apply (rule evolves_upd_local)
    using that apply (auto simp: cell_evolves_def alloc_def)
    done
  show ?thesis
    unfolding Promise_then_def Let_def
    using R 1
    by (auto intro!: res_evolves_intros res_evolves_rec[OF R] split: option.splits prod.splits)
qed

lemma alloc_evolves: "is_tag (status p) \<Longrightarrow> evolves \<tau> (snd (alloc p \<tau>))"
  by (rule evolves_alloc) simp_all

lemma alloc_evolvesD: "alloc p \<tau> = (x, \<tau>') \<Longrightarrow> is_tag (status p) \<Longrightarrow> evolves \<tau> \<tau>'"
  using alloc_evolves[of p \<tau>] by simp

lemma simple_evolves:
  assumes R: "evolving rec"
  shows "res_evolves \<tau> (Deferred_resolve rec d data \<tau>)"
    and "res_evolves \<tau> (Deferred_reject rec d error \<tau>)"
    and "res_evolves \<tau> (failable rec nodeStyle error success \<tau>)"
    and "res_evolves \<tau> (failable_cb rec error success args \<tau>)"
    and "res_evolves \<tau> (wrapper rec nodeStyle context args0 args \<tau>)"
  unfolding Deferred_resolve_def Deferred_reject_def failable_def failable_cb_def wrapper_def
  by (auto intro!: res_evolves_intros res_evolves_rec[OF R])

lemma promisified_evolves:
  assumes R: "evolving rec"
  shows "res_evolves \<tau> (promisified rec nodeStyle context args \<tau>)"
  unfolding promisified_def defer_fn_def
  using alloc_evolves[of "Promise VUndef VUndef" \<tau>]
  by (auto intro!: res_evolves_intros res_evolves_rec[OF R] split: prod.splits)

lemma call_evolves:
  assumes R: "evolving rec"
  shows "res_evolves \<tau> (call U rec f this args \<tau>)"
proof (cases f)
  case (VFun m)
  then show ?thesis
    by (cases m)
       (auto simp: defer_fn_def resolved_fn_def rejected_fn_def
             intro!: res_evolves_intros dest: alloc_evolvesD split: prod.splits)
next
  case (VUser i)
  then show ?thesis
    by (auto intro!: res_evolves_rec[OF R] evolves_calls)
qed (auto intro!: res_evolves_intros res_evolves_rec[OF R] simple_evolves[OF R]
       promisified_evolves[OF R])

lemma run_evolves:
  assumes R: "evolving rec"
  shows "res_evolves \<tau> (run rec s \<tau>)"
  by (cases s) (auto intro!: res_evolves_intros res_evolves_rec[OF R])

lemma step_evolving:
  assumes R: "evolving rec"
  shows "evolving (step U rec)"
  unfolding evolving_def
proof (intro allI impI)
  fix opn \<sigma> r \<sigma>'
  assume run: "step U rec opn \<sigma> = Some (r, \<sigma>')" and ok: "forced_ok opn \<sigma>"
  have "res_evolves \<sigma> (step U rec opn \<sigma>)"
    using ok
    by (cases opn)
       (simp_all add: Promise_then_evolves[OF R] Promise_catch_evolves[OF R]
          Promise_fulfill_evolves[OF R] Promise_abandon_evolves[OF R]
          simple_evolves[OF R] promisified_evolves[OF R] call_evolves[OF R] run_evolves[OF R])
  with run show "evolves \<sigma> \<sigma>'" by (simp add: res_evolves_def)
qed

lemma exec_evolving: "evolving (exec U n)"
proof (induction n)
  case 0
  show ?case by (simp add: evolving_def)
next
  case (Suc n)
  then show ?case by (simp add: step_evolving)
qed

lemma exec_evolves:
  "exec U n opn \<sigma> = Some (r, \<sigma>') \<Longrightarrow> forced_ok opn \<sigma> \<Longrightarrow> evolves \<sigma> \<sigma>'"
  using exec_evolving[of U n] by (rule evolvingD)

section \<open>A rejection travels down the chain\<close>

lemma exec_Suc: "exec U (Suc n) opn \<sigma> = step U (exec U n) opn \<sigma>"
  by simp

declare exec.simps(2) [simp del]

lemma discard_andThen: "discard (andThen m k) = andThen m (\<lambda>v \<sigma>. discard (k v \<sigma>))"
  by (simp add: discard_def andThen_def split: option.splits outcome.splits prod.splits)

lemma discard_typeError [simp]: "discard (typeError \<sigma>) = typeError \<sigma>"
  by (simp add: typeError_def)

lemma discard_case_option:
  "discard (case x of None \<Rightarrow> f | Some y \<Rightarrow> g y) = (case x of None \<Rightarrow> discard f | Some y \<Rightarrow> discard (g y))"
  by (simp split: option.splits)

lemma discard_if: "discard (if b then x else y) = (if b then discard x else discard y)"
  by simp

lemma abandon_discard [simp]:
  "discard (exec U n (Abandon a e f) \<sigma>) = exec U n (Abandon a e f) \<sigma>"
proof (cases n)
  case 0
  then show ?thesis by simp
next
  case (Suc k)
  show ?thesis unfolding Suc exec_Suc step.simps Promise_abandon_def Let_def
    by (simp add: discard_if discard_case_option cong: option.case_cong)
qed

lemma fulfill_discard [simp]:
  "discard (exec U n (Fulfill a d f) \<sigma>) = exec U n (Fulfill a d f) \<sigma>"
proof (cases n)
  case 0
  then show ?thesis by simp
next
  case (Suc k)
  show ?thesis unfolding Suc exec_Suc step.simps Promise_fulfill_def Let_def
    by (simp add: discard_if discard_case_option discard_andThen cong: option.case_cong if_cong)
qed

lemma exec_Reject: "exec U (Suc n) (Reject d e) \<sigma> = exec U n (Abandon d e False) \<sigma>"
  by (simp add: exec_Suc Deferred_reject_def)

lemma exec_Resolve: "exec U (Suc n) (Resolve d x) \<sigma> = exec U n (Fulfill d x False) \<sigma>"
  by (simp add: exec_Suc Deferred_resolve_def)

lemma unhandled_path_upd:
  "a \<notin> set (b # bs) \<Longrightarrow> unhandled_path (upd a f \<sigma>) b bs = unhandled_path \<sigma> b bs"
  by (induction bs arbitrary: b) auto

lemma reject_all_heap_other:
  "t \<notin> set as \<Longrightarrow> heap (reject_all as \<sigma>) t = heap \<sigma> t"
  unfolding reject_all_def by (induction as arbitrary: \<sigma>) auto

lemma reject_all_simps [simp]:
  "reject_all [] \<sigma> = \<sigma>"
  "reject_all (a # as) \<sigma> = reject_all as (upd a (\<lambda>p. p\<lparr>status := rejected\<rparr>) \<sigma>)"
  "reject_all (as @ [t]) \<sigma> = upd t (\<lambda>p. p\<lparr>status := rejected\<rparr>) (reject_all as \<sigma>)"
  by (simp_all add: reject_all_def)

lemma reject_all_calls [simp]: "calls (reject_all as \<sigma>) = calls \<sigma>"
  by (induction as arbitrary: \<sigma>) auto

lemma reject_all_fresh [simp]: "fresh (reject_all as \<sigma>) = fresh \<sigma>"
  by (induction as arbitrary: \<sigma>) auto

lemma abandon_propagates:
  "unhandled_path \<sigma> a bs \<Longrightarrow> distinct (a # bs) \<Longrightarrow>
   exec U (2 * length bs + m) (Abandon a e False) \<sigma>
     = exec U m (Abandon (last (a # bs)) e False) (reject_all (butlast (a # bs)) \<sigma>)"
proof (induction bs arbitrary: a \<sigma>)
  case Nil
  show ?case by simp
next
  case (Cons b bs)
  let ?\<sigma>1 = "upd a (\<lambda>p. p\<lparr>status := rejected\<rparr>) \<sigma>"
  from Cons.prems have a: "status (heap \<sigma> a) = waiting" "\<not> truthy (onFail (heap \<sigma> a))"
    "next' (heap \<sigma> a) = Some b" and p: "unhandled_path \<sigma> b bs" by simp_all
  from Cons.prems have d: "a \<notin> set (b # bs)" "distinct (b # bs)" by auto
  have p1: "unhandled_path ?\<sigma>1 b bs" using p unhandled_path_upd[OF d(1)] by simp
  have eq: "2 * length (b # bs) + m = Suc (Suc (2 * length bs + m))" by simp
  have hop: "exec U (Suc (Suc k)) (Abandon a e False) \<sigma> = exec U k (Abandon b e False) ?\<sigma>1" for k
    using a by (simp add: exec_Suc[of U "Suc k"] exec_Reject Promise_abandon_def)
  have "exec U (2 * length (b # bs) + m) (Abandon a e False) \<sigma>
          = exec U (2 * length bs + m) (Abandon b e False) ?\<sigma>1"
    unfolding eq by (rule hop)
  also have "\<dots> = exec U m (Abandon (last (b # bs)) e False) (reject_all (butlast (b # bs)) ?\<sigma>1)"
    by (rule Cons.IH[OF p1 d(2)])
  finally show ?case by (simp only: last.simps butlast.simps list.distinct reject_all_simps if_False)
qed

lemma last_notin_butlast: "distinct xs \<Longrightarrow> xs \<noteq> [] \<Longrightarrow> last xs \<notin> set (butlast xs)"
  by (induction xs) auto

lemma reject_all_heap_in:
  "b \<in> set as \<Longrightarrow> heap (reject_all as \<sigma>) b = (heap \<sigma> b)\<lparr>status := rejected\<rparr>"
proof (induction as arbitrary: \<sigma>)
  case Nil
  then show ?case by simp
next
  case (Cons x xs)
  show ?case
  proof (cases "b \<in> set xs")
    case True
    then show ?thesis using Cons.IH[of "upd x (\<lambda>p. p\<lparr>status := rejected\<rparr>) \<sigma>"] by simp
  next
    case False
    with Cons.prems have "b = x" by simp
    with False show ?thesis by (simp add: reject_all_heap_other)
  qed
qed

lemma reject_all_snoc:
  "upd (last (a # bs)) (\<lambda>p. p\<lparr>status := rejected\<rparr>) (reject_all (butlast (a # bs)) \<sigma>)
     = reject_all (a # bs) \<sigma>"
proof -
  have "reject_all (butlast (a # bs) @ [last (a # bs)]) \<sigma> = reject_all (a # bs) \<sigma>"
    by (simp only: append_butlast_last_id list.distinct not_False_eq_True)
  then show ?thesis by (simp only: reject_all_simps(3))
qed

lemma reach_tail:
  assumes "unhandled_path \<sigma> a bs" and "distinct (a # bs)"
  shows "exec U (Suc (Suc (2 * length bs + m))) (Reject a e) \<sigma>
           = exec U (Suc m) (Abandon (last (a # bs)) e False) (reject_all (butlast (a # bs)) \<sigma>)"
    and "heap (reject_all (butlast (a # bs)) \<sigma>) (last (a # bs)) = heap \<sigma> (last (a # bs))"
proof -
  have "exec U (Suc (Suc (2 * length bs + m))) (Reject a e) \<sigma>
          = exec U (2 * length bs + Suc m) (Abandon a e False) \<sigma>"
    by (simp add: exec_Reject)
  also have "\<dots> = exec U (Suc m) (Abandon (last (a # bs)) e False)
                     (reject_all (butlast (a # bs)) \<sigma>)"
    by (rule abandon_propagates[OF assms])
  finally show "exec U (Suc (Suc (2 * length bs + m))) (Reject a e) \<sigma>
           = exec U (Suc m) (Abandon (last (a # bs)) e False) (reject_all (butlast (a # bs)) \<sigma>)" .
  have "last (a # bs) \<notin> set (butlast (a # bs))"
    using assms(2) by (intro last_notin_butlast) simp_all
  then show "heap (reject_all (butlast (a # bs)) \<sigma>) (last (a # bs)) = heap \<sigma> (last (a # bs))"
    by (rule reject_all_heap_other)
qed

section \<open>Evaluation\<close>

lemma exec_numeral: "exec U (numeral k) = step U (exec U (pred_numeral k))"
  by (simp add: numeral_eq_Suc exec.simps(2))

lemmas lib_defs = Promise_then_def Promise_catch_def Promise_fulfill_def Promise_abandon_def
  Deferred_resolve_def Deferred_reject_def failable_def failable_cb_def promisified_def
  wrapper_def defer_fn_def resolved_fn_def rejected_fn_def promisify_def alloc_def
  Promise_def typeError_def arg_def registered_then_def
  rejected_def resolved_def waiting_def bindings_loaded_def bindings_line10_def init_def

lemmas eval_simps = exec_numeral exec_Suc lib_defs Let_def upd_def ret_def throw_def

section \<open>Rejections\<close>

text \<open>
  Claim C6. A rejection that runs down a chain on which no failure handler is registered,
  and whose last promise has no \<^verbatim>\<open>next\<close>, completes normally: the
  \<^verbatim>\<open>reject\<close> call returns \<^verbatim>\<open>undefined\<close> without throwing, every promise of
  the chain becomes rejected and nothing else in the store changes; in particular no user
  function is called, so the error leaves no trace.
\<close>

theorem C6_dropped_rejection:
  assumes "unhandled_path \<sigma> a bs" and "distinct (a # bs)"
    and "status (heap \<sigma> (last (a # bs))) = waiting"
    and "\<not> truthy (onFail (heap \<sigma> (last (a # bs))))"
    and "next' (heap \<sigma> (last (a # bs))) = None"
  shows "exec U (Suc (Suc (2 * length bs + m))) (Reject a e) \<sigma> = ret VUndef (reject_all (a # bs) \<sigma>)
         \<and> calls (reject_all (a # bs) \<sigma>) = calls \<sigma>
         \<and> (\<forall>b \<in> set (a # bs). heap (reject_all (a # bs) \<sigma>) b = (heap \<sigma> b)\<lparr>status := rejected\<rparr>)
         \<and> (\<forall>b. b \<notin> set (a # bs) \<longrightarrow> heap (reject_all (a # bs) \<sigma>) b = heap \<sigma> b)"
proof -
  let ?t = "last (a # bs)" and ?\<sigma>' = "reject_all (butlast (a # bs)) \<sigma>"
  note tail = reach_tail(1)[OF assms(1,2), of U m e] reach_tail(2)[OF assms(1,2)]
  have "exec U (Suc m) (Abandon ?t e False) ?\<sigma>' = ret VUndef (upd ?t (\<lambda>p. p\<lparr>status := rejected\<rparr>) ?\<sigma>')"
    using assms(3-5) tail(2) by (simp add: exec_Suc Promise_abandon_def)
  then have 1: "exec U (Suc (Suc (2 * length bs + m))) (Reject a e) \<sigma> = ret VUndef (reject_all (a # bs) \<sigma>)"
    using tail(1) by (simp only: reject_all_snoc)
  have 2: "\<forall>b \<in> set (a # bs). heap (reject_all (a # bs) \<sigma>) b = (heap \<sigma> b)\<lparr>status := rejected\<rparr>"
    by (blast intro: reject_all_heap_in)
  have 3: "\<forall>b. b \<notin> set (a # bs) \<longrightarrow> heap (reject_all (a # bs) \<sigma>) b = heap \<sigma> b"
    by (blast intro: reject_all_heap_other)
  from 1 2 3 show ?thesis by (simp only: reject_all_calls simp_thms)
qed

theorem C6_dropped_rejection_witness:
  "exec U_echo 9 (Run nocatch_prog) init = ret (VDeferred 0) nocatch_state
   \<and> exec U_echo (Suc (Suc (2 * length [1, 2 :: nat] + 0))) (Reject 0 (VStr ''boom'')) nocatch_state
       = ret VUndef (reject_all [0, 1, 2] nocatch_state)
   \<and> calls (reject_all [0, 1, 2] nocatch_state) = []
   \<and> status (heap (reject_all [0, 1, 2] nocatch_state) 0) = rejected
   \<and> value' (heap (reject_all [0, 1, 2] nocatch_state) 0) = VUndef"
  using C6_dropped_rejection[of nocatch_state 0 "[1, 2]" U_echo 0 "VStr ''boom''"]
  by (simp add: eval_simps nocatch_prog_def nocatch_state_def U_echo_def)

text \<open>
  Claim C3. When a waiting promise with no failure handler of its own is rejected, the
  error travels unchanged along the \<^verbatim>\<open>next\<close> links to the first promise that has a
  failure handler: the \<^verbatim>\<open>reject\<close> call is the call of that handler on the error,
  made with every promise on the way set to rejected and the error stored in the promise
  of the handler.
\<close>

theorem C3_rejection_reaches_handler:
  assumes "unhandled_path \<sigma> a bs" and "distinct (a # bs)"
    and "status (heap \<sigma> (last (a # bs))) = waiting"
    and "truthy (onFail (heap \<sigma> (last (a # bs))))"
  shows "exec U (Suc (Suc (2 * length bs + m))) (Reject a e) \<sigma>
           = discard (exec U m (CallF (onFail (heap \<sigma> (last (a # bs)))) (VPromise (last (a # bs))) [e])
               (upd (last (a # bs)) (\<lambda>p. p\<lparr>value' := e\<rparr>) (reject_all (a # bs) \<sigma>)))"
proof -
  let ?t = "last (a # bs)" and ?\<sigma>' = "reject_all (butlast (a # bs)) \<sigma>"
  note tail = reach_tail(1)[OF assms(1,2), of U m e] reach_tail(2)[OF assms(1,2)]
  have "exec U (Suc m) (Abandon ?t e False) ?\<sigma>'
          = discard (exec U m (CallF (onFail (heap \<sigma> ?t)) (VPromise ?t) [e])
               (upd ?t (\<lambda>p. p\<lparr>value' := e\<rparr>) (upd ?t (\<lambda>p. p\<lparr>status := rejected\<rparr>) ?\<sigma>')))"
    using assms(3,4) tail(2) by (simp add: exec_Suc Promise_abandon_def del: upd_upd)
  then show ?thesis
    using tail(1) by (simp only: reject_all_snoc)
qed

theorem C3_rejection_reaches_handler_witness:
  "exec U_echo 9 (Run chain_prog) init = ret (VDeferred 0) chain_state
   \<and> map_option (\<lambda>(r, \<sigma>). (r, calls \<sigma>, status (heap \<sigma> 0), status (heap \<sigma> 1)))
        (exec U_echo (Suc (Suc (2 * length [1 :: nat] + 2))) (Reject 0 (VStr ''boom'')) chain_state)
       = Some (Normal VUndef, [(1, VPromise 1, [VStr ''boom''])], rejected, rejected)"
  using C3_rejection_reaches_handler[of chain_state 0 "[1]" U_echo 2 "VStr ''boom''"]
  by (simp add: eval_simps chain_prog_def chain_state_def U_echo_def)

section \<open>Settling once\<close>

lemma settled_stays:
  assumes "exec U n opn \<sigma> = Some (r, \<sigma>')" and "forced_ok opn \<sigma>" and "a < fresh \<sigma>"
  shows "cell_evolves (heap \<sigma> a) (heap \<sigma>' a)"
  using exec_evolves[OF assms(1,2)] assms(3) by (rule evolves_cell)

lemma res_evolvesD: "res_evolves \<sigma> m \<Longrightarrow> m = Some (r, \<sigma>') \<Longrightarrow> evolves \<sigma> \<sigma>'"
  by (simp add: res_evolves_def)

lemma registered_then_simps [simp]:
  "fresh (registered_then a s \<sigma>) = Suc (fresh \<sigma>)"
  "calls (registered_then a s \<sigma>) = calls \<sigma>"
  "a \<noteq> fresh \<sigma> \<Longrightarrow> heap (registered_then a s \<sigma>) a = (heap \<sigma> a)\<lparr>owed := s, next' := Some (fresh \<sigma>)\<rparr>"
  "heap (registered_then a s \<sigma>) (fresh \<sigma>) = (Promise VUndef VUndef)\<lparr>next' := (if a = fresh \<sigma> then Some (fresh \<sigma>) else None)\<rparr>"
  by (simp_all add: registered_then_def defer_fn_def alloc_def upd_def Promise_def)

lemma Promise_then_registered:
  assumes R: "evolving rec" and nt: "\<not> truthy (owed (heap \<tau> a))"
  shows "res_evolves (registered_then a success \<tau>) (Promise_then rec a success failure \<tau>)"
  unfolding Promise_then_def Let_def
  using nt
  by (auto simp: registered_then_def defer_fn_def alloc_def
      intro!: res_evolves_intros res_evolves_rec[OF R] split: option.splits)

lemma Promise_catch_registered:
  assumes R: "evolving rec" and nt: "\<not> truthy (onFail (heap \<tau> a))"
  shows "res_evolves (upd a (\<lambda>p. p\<lparr>onFail := failure\<rparr>) \<tau>) (Promise_catch rec a failure \<tau>)"
  unfolding Promise_catch_def Let_def
  using nt
  by (auto intro!: res_evolves_intros res_evolves_rec[OF R])

lemma then_leaves_owed:
  assumes run: "exec U n (Then a s f) \<sigma> = Some (r, \<sigma>')" and a: "a < fresh \<sigma>" and s: "truthy s"
  shows "truthy (owed (heap \<sigma>' a))"
proof (cases n)
  case 0
  with run show ?thesis by simp
next
  case (Suc k)
  show ?thesis
  proof (cases "truthy (owed (heap \<sigma> a))")
    case True
    with run Suc show ?thesis by (simp add: exec_Suc Promise_then_def throw_def)
  next
    case False
    from run Suc have "Promise_then (exec U k) a s f \<sigma> = Some (r, \<sigma>')" by (simp add: exec_Suc)
    with Promise_then_registered[OF exec_evolving False]
    have "evolves (registered_then a s \<sigma>) \<sigma>'" by (rule res_evolvesD)
    then have "cell_evolves (heap (registered_then a s \<sigma>) a) (heap \<sigma>' a)"
      using a by (intro evolves_cell) simp_all
    with a s show ?thesis by (simp add: cell_evolves_def)
  qed
qed

lemma catch_leaves_onFail:
  assumes run: "exec U n (Catch a h) \<sigma> = Some (r, \<sigma>')" and a: "a < fresh \<sigma>" and h: "truthy h"
  shows "truthy (onFail (heap \<sigma>' a))"
proof (cases n)
  case 0
  with run show ?thesis by simp
next
  case (Suc k)
  show ?thesis
  proof (cases "truthy (onFail (heap \<sigma> a))")
    case True
    with run Suc show ?thesis by (simp add: exec_Suc Promise_catch_def throw_def)
  next
    case False
    from run Suc have "Promise_catch (exec U k) a h \<sigma> = Some (r, \<sigma>')" by (simp add: exec_Suc)
    with Promise_catch_registered[OF exec_evolving False]
    have "evolves (upd a (\<lambda>p. p\<lparr>onFail := h\<rparr>) \<sigma>) \<sigma>'" by (rule res_evolvesD)
    then have "cell_evolves (heap (upd a (\<lambda>p. p\<lparr>onFail := h\<rparr>) \<sigma>) a) (heap \<sigma>' a)"
      using a by (intro evolves_cell) simp_all
    with h show ?thesis by (simp add: cell_evolves_def)
  qed
qed

lemma fulfill_settles:
  assumes run: "exec U n (Fulfill a x False) \<sigma> = Some (r, \<sigma>')" and a: "a < fresh \<sigma>"
  shows "status (heap \<sigma>' a) \<noteq> waiting"
proof (cases n)
  case 0
  with run show ?thesis by simp
next
  case (Suc k)
  let ?\<sigma>1 = "upd a (\<lambda>p. p\<lparr>status := resolved\<rparr>) \<sigma>"
  show ?thesis
  proof (cases "status (heap \<sigma> a) = waiting")
    case False
    with run Suc show ?thesis by (simp add: exec_Suc Promise_fulfill_def throw_def)
  next
    case True
    have "res_evolves ?\<sigma>1 (Promise_fulfill (exec U k) a x False \<sigma>)"
      unfolding Promise_fulfill_def Let_def using True
      by (auto intro!: res_evolves_intros res_evolves_rec[OF exec_evolving] evolves_upd_value
          split: option.splits)
    with run Suc have "evolves ?\<sigma>1 \<sigma>'" by (simp add: exec_Suc res_evolves_def)
    then have "cell_evolves (heap ?\<sigma>1 a) (heap \<sigma>' a)"
      using a by (intro evolves_cell) simp_all
    then show ?thesis by (simp add: cell_evolves_def)
  qed
qed

lemma abandon_settles:
  assumes run: "exec U n (Abandon a x False) \<sigma> = Some (r, \<sigma>')" and a: "a < fresh \<sigma>"
  shows "status (heap \<sigma>' a) \<noteq> waiting"
proof (cases n)
  case 0
  with run show ?thesis by simp
next
  case (Suc k)
  let ?\<sigma>2 = "upd a (\<lambda>p. p\<lparr>status := rejected, value' := x\<rparr>) \<sigma>"
  let ?\<sigma>1 = "upd a (\<lambda>p. p\<lparr>status := rejected\<rparr>) \<sigma>"
  show ?thesis
  proof (cases "status (heap \<sigma> a) = waiting")
    case False
    with run Suc show ?thesis by (simp add: exec_Suc Promise_abandon_def throw_def)
  next
    case True
    have "res_evolves (if truthy (onFail (heap \<sigma> a)) then ?\<sigma>2 else ?\<sigma>1)
            (Promise_abandon (exec U k) a x False \<sigma>)"
      unfolding Promise_abandon_def Let_def using True
      by (auto intro!: res_evolves_intros res_evolves_rec[OF exec_evolving]
          split: option.splits)
    with run Suc have "evolves (if truthy (onFail (heap \<sigma> a)) then ?\<sigma>2 else ?\<sigma>1) \<sigma>'"
      by (simp add: exec_Suc res_evolves_def)
    then have "cell_evolves (heap (if truthy (onFail (heap \<sigma> a)) then ?\<sigma>2 else ?\<sigma>1) a) (heap \<sigma>' a)"
      using a by (intro evolves_cell) (simp_all split: if_splits)
    then show ?thesis by (simp add: cell_evolves_def split: if_splits)
  qed
qed

text \<open>
  Claim C7. Every operation the library performs, on any store and with any user functions
  (a call of a public function or method, a whole user script, or an internal forced
  transition, which line 47 makes only on a resolved and line 76 only on a rejected
  promise), leaves the status of a promise that was not waiting as it was and takes a
  waiting status to one of the three tags; promises created on the way carry one of the
  three tags. On a promise that is not waiting, \<^verbatim>\<open>fulfill\<close> and \<^verbatim>\<open>abandon\<close>
  without \<^verbatim>\<open>force\<close> throw and change nothing.
\<close>

theorem C7_status_monotone:
  assumes "exec U n opn \<sigma> = Some (r, \<sigma>')" and "forced_ok opn \<sigma>"
  shows "(\<forall>a<fresh \<sigma>. if status (heap \<sigma> a) = waiting
                       then is_tag (status (heap \<sigma>' a))
                       else status (heap \<sigma>' a) = status (heap \<sigma> a))
       \<and> (\<forall>a. fresh \<sigma> \<le> a \<and> a < fresh \<sigma>' \<longrightarrow> is_tag (status (heap \<sigma>' a)))
       \<and> (\<forall>a x k. status (heap \<sigma>' a) \<noteq> waiting \<longrightarrow>
             exec U (Suc k) (Fulfill a x False) \<sigma>'
               = throw (VError ''Tried to fulfill a promise twice.'') \<sigma>'
             \<and> exec U (Suc k) (Abandon a x False) \<sigma>'
               = throw (VError ''Tried to abandon a promise twice.'') \<sigma>')"
proof -
  have ev: "evolves \<sigma> \<sigma>'" using assms by (rule exec_evolves)
  have 1: "\<forall>a<fresh \<sigma>. if status (heap \<sigma> a) = waiting
                       then is_tag (status (heap \<sigma>' a))
                       else status (heap \<sigma>' a) = status (heap \<sigma> a)"
    using evolves_cell[OF ev] by (auto simp: cell_evolves_def)
  have 2: "\<forall>a. fresh \<sigma> \<le> a \<and> a < fresh \<sigma>' \<longrightarrow> is_tag (status (heap \<sigma>' a))"
    using evolves_new[OF ev] by blast
  have 3: "\<forall>a x k. status (heap \<sigma>' a) \<noteq> waiting \<longrightarrow>
             exec U (Suc k) (Fulfill a x False) \<sigma>'
               = throw (VError ''Tried to fulfill a promise twice.'') \<sigma>'
             \<and> exec U (Suc k) (Abandon a x False) \<sigma>'
               = throw (VError ''Tried to abandon a promise twice.'') \<sigma>'"
    by (simp add: exec_Suc Promise_fulfill_def Promise_abandon_def)
  from 1 2 3 show ?thesis by blast
qed

theorem C7_status_monotone_witness:
  "exec U_echo 5 (Resolve 0 (VNum 1)) (snd (defer_fn init))
     = ret VUndef (upd 0 (\<lambda>p. p\<lparr>status := resolved\<rparr>) (snd (defer_fn init)))
   \<and> status (heap (snd (defer_fn init)) 0) = waiting
   \<and> status (heap (upd 0 (\<lambda>p. p\<lparr>status := resolved\<rparr>) (snd (defer_fn init))) 0) = resolved
   \<and> exec U_echo (Suc 0) (Abandon 0 (VNum 2) False)
         (upd 0 (\<lambda>p. p\<lparr>status := resolved\<rparr>) (snd (defer_fn init)))
       = throw (VError ''Tried to abandon a promise twice.'')
           (upd 0 (\<lambda>p. p\<lparr>status := resolved\<rparr>) (snd (defer_fn init)))"
  using C7_status_monotone[where U = U_echo and n = 5 and opn = "Resolve 0 (VNum 1)"
      and \<sigma> = "snd (defer_fn init)" and r = "Normal VUndef"
      and \<sigma>' = "upd 0 (\<lambda>p. p\<lparr>status := resolved\<rparr>) (snd (defer_fn init))"]
  by (simp add: eval_simps)

text \<open>
  Claim C4. The four misuses throw at the call that commits them, whatever the status of
  the promise: after a \<^verbatim>\<open>then\<close> with a truthy success callback has returned or
  thrown, a further \<^verbatim>\<open>then\<close> on the same promise throws
  \<^verbatim>\<open>Tried to then a promise twice.\<close>; likewise a second \<^verbatim>\<open>catch\<close> after one
  with a truthy handler; after a \<^verbatim>\<open>resolve\<close> (or \<^verbatim>\<open>reject\<close>) of a Deferred has
  returned or thrown, a second one throws \<^verbatim>\<open>Tried to fulfill a promise twice.\<close>
  (\<^verbatim>\<open>Tried to abandon a promise twice.\<close>). The store is left as it was.
\<close>

theorem C4_usage_errors:
  assumes "a < fresh \<sigma>"
  shows "(truthy s \<longrightarrow> exec U n (Then a s f) \<sigma> = Some (r, \<sigma>') \<longrightarrow>
            exec U (Suc m) (Then a s' f') \<sigma>'
              = throw (VError ''Tried to then a promise twice.'') \<sigma>')
       \<and> (truthy h \<longrightarrow> exec U n (Catch a h) \<sigma> = Some (r, \<sigma>') \<longrightarrow>
            exec U (Suc m) (Catch a h') \<sigma>'
              = throw (VError ''Tried to catch a promise twice.'') \<sigma>')
       \<and> (exec U n (Resolve a x) \<sigma> = Some (r, \<sigma>') \<longrightarrow>
            exec U (Suc (Suc m)) (Resolve a y) \<sigma>'
              = throw (VError ''Tried to fulfill a promise twice.'') \<sigma>')
       \<and> (exec U n (Reject a x) \<sigma> = Some (r, \<sigma>') \<longrightarrow>
            exec U (Suc (Suc m)) (Reject a y) \<sigma>'
              = throw (VError ''Tried to abandon a promise twice.'') \<sigma>')"
proof (intro conjI impI)
  assume "truthy s" "exec U n (Then a s f) \<sigma> = Some (r, \<sigma>')"
  then have "truthy (owed (heap \<sigma>' a))" using assms by (intro then_leaves_owed)
  then show "exec U (Suc m) (Then a s' f') \<sigma>'
              = throw (VError ''Tried to then a promise twice.'') \<sigma>'"
    by (simp add: exec_Suc Promise_then_def)
next
  assume "truthy h" "exec U n (Catch a h) \<sigma> = Some (r, \<sigma>')"
  then have "truthy (onFail (heap \<sigma>' a))" using assms by (intro catch_leaves_onFail)
  then show "exec U (Suc m) (Catch a h') \<sigma>'
              = throw (VError ''Tried to catch a promise twice.'') \<sigma>'"
    by (simp add: exec_Suc Promise_catch_def)
next
  assume run: "exec U n (Resolve a x) \<sigma> = Some (r, \<sigma>')"
  then obtain k where n: "n = Suc k" by (cases n) simp_all
  from run obtain r0 where "exec U k (Fulfill a x False) \<sigma> = Some (r0, \<sigma>')"
    unfolding n exec_Resolve by blast
  then have "status (heap \<sigma>' a) \<noteq> waiting" using assms by (rule fulfill_settles)
  then show "exec U (Suc (Suc m)) (Resolve a y) \<sigma>'
              = throw (VError ''Tried to fulfill a promise twice.'') \<sigma>'"
    unfolding exec_Resolve by (simp add: exec_Suc Promise_fulfill_def)
next
  assume run: "exec U n (Reject a x) \<sigma> = Some (r, \<sigma>')"
  then obtain k where n: "n = Suc k" by (cases n) simp_all
  from run obtain r0 where "exec U k (Abandon a x False) \<sigma> = Some (r0, \<sigma>')"
    unfolding n exec_Reject by blast
  then have "status (heap \<sigma>' a) \<noteq> waiting" using assms by (rule abandon_settles)
  then show "exec U (Suc (Suc m)) (Reject a y) \<sigma>'
              = throw (VError ''Tried to abandon a promise twice.'') \<sigma>'"
    unfolding exec_Reject by (simp add: exec_Suc Promise_abandon_def)
qed

theorem C4_usage_errors_witness:
  "exec U_echo (Suc 0) (Then 0 (VUser 1) VUndef) (registered_then 0 (VUser 0) (snd (defer_fn init)))
     = throw (VError ''Tried to then a promise twice.'')
         (registered_then 0 (VUser 0) (snd (defer_fn init)))
   \<and> exec U_echo (Suc 0) (Catch 0 (VUser 2)) (upd 0 (\<lambda>p. p\<lparr>onFail := VUser 1\<rparr>) (snd (defer_fn init)))
     = throw (VError ''Tried to catch a promise twice.'')
         (upd 0 (\<lambda>p. p\<lparr>onFail := VUser 1\<rparr>) (snd (defer_fn init)))
   \<and> exec U_echo (Suc (Suc 0)) (Resolve 0 (VNum 2))
         (upd 0 (\<lambda>p. p\<lparr>status := resolved\<rparr>) (snd (defer_fn init)))
     = throw (VError ''Tried to fulfill a promise twice.'')
         (upd 0 (\<lambda>p. p\<lparr>status := resolved\<rparr>) (snd (defer_fn init)))
   \<and> exec U_echo (Suc (Suc 0)) (Reject 0 (VNum 2))
         (upd 0 (\<lambda>p. p\<lparr>status := rejected\<rparr>) (snd (defer_fn init)))
     = throw (VError ''Tried to abandon a promise twice.'')
         (upd 0 (\<lambda>p. p\<lparr>status := rejected\<rparr>) (snd (defer_fn init)))"
  using
    C4_usage_errors[where U = U_echo and a = 0 and \<sigma> = "snd (defer_fn init)" and n = 3
      and m = 0 and s = "VUser 0" and f = VUndef and s' = "VUser 1" and f' = VUndef
      and r = "Normal (VPromise 1)"
      and \<sigma>' = "registered_then 0 (VUser 0) (snd (defer_fn init))"]
    C4_usage_errors[where U = U_echo and a = 0 and \<sigma> = "snd (defer_fn init)" and n = 3
      and m = 0 and h = "VUser 1" and h' = "VUser 2" and r = "Normal VUndef"
      and \<sigma>' = "upd 0 (\<lambda>p. p\<lparr>onFail := VUser 1\<rparr>) (snd (defer_fn init))"]
    C4_usage_errors[where U = U_echo and a = 0 and \<sigma> = "snd (defer_fn init)" and n = 3
      and m = 0 and x = "VNum 1" and y = "VNum 2" and r = "Normal VUndef"
      and \<sigma>' = "upd 0 (\<lambda>p. p\<lparr>status := resolved\<rparr>) (snd (defer_fn init))"]
    C4_usage_errors[where U = U_echo and a = 0 and \<sigma> = "snd (defer_fn init)" and n = 3
      and m = 0 and x = "VNum 1" and y = "VNum 2" and r = "Normal VUndef"
      and \<sigma>' = "upd 0 (\<lambda>p. p\<lparr>status := rejected\<rparr>) (snd (defer_fn init))"]
  by (simp add: eval_simps)

text \<open>
  Claim C10. On a promise with no failure handler, \<^verbatim>\<open>abandon\<close> writes the status
  and nothing else: past the guard it is the status update followed, when there is a
  \<^verbatim>\<open>next\<close>, by the rejection of \<^verbatim>\<open>next\<close>; and however the call ends, the
  promise's value is what it was before and its status is rejected.
\<close>

theorem C10_abandon_frame:
  assumes "\<not> truthy (onFail (heap \<sigma> a))" and "a < fresh \<sigma>"
  shows "exec U (Suc n) (Abandon a e force) \<sigma> =
           (if status (heap \<sigma> a) \<noteq> waiting \<and> \<not> force
            then throw (VError ''Tried to abandon a promise twice.'') \<sigma>
            else case next' (heap \<sigma> a) of
                   None \<Rightarrow> ret VUndef (upd a (\<lambda>p. p\<lparr>status := rejected\<rparr>) \<sigma>)
                 | Some d \<Rightarrow> exec U n (Reject d e) (upd a (\<lambda>p. p\<lparr>status := rejected\<rparr>) \<sigma>))
         \<and> (\<forall>r \<sigma>'. exec U (Suc n) (Abandon a e force) \<sigma> = Some (r, \<sigma>') \<longrightarrow>
               value' (heap \<sigma>' a) = value' (heap \<sigma> a)
               \<and> (status (heap \<sigma> a) = waiting \<or> force \<longrightarrow> status (heap \<sigma>' a) = rejected))"
proof -
  let ?\<sigma>1 = "upd a (\<lambda>p. p\<lparr>status := rejected\<rparr>) \<sigma>"
  have rej_discard: "discard (exec U n (Reject d e) \<tau>) = exec U n (Reject d e) \<tau>" for d \<tau>
    by (cases n) (simp_all add: exec_Suc Deferred_reject_def)
  have eq: "exec U (Suc n) (Abandon a e force) \<sigma> =
           (if status (heap \<sigma> a) \<noteq> waiting \<and> \<not> force
            then throw (VError ''Tried to abandon a promise twice.'') \<sigma>
            else case next' (heap \<sigma> a) of
                   None \<Rightarrow> ret VUndef ?\<sigma>1
                 | Some d \<Rightarrow> exec U n (Reject d e) ?\<sigma>1)"
    using assms(1) by (simp add: exec_Suc Promise_abandon_def rej_discard split: option.splits)
  have fr: "value' (heap \<sigma>' a) = value' (heap \<sigma> a)
               \<and> (status (heap \<sigma> a) = waiting \<or> force \<longrightarrow> status (heap \<sigma>' a) = rejected)"
    if run: "exec U (Suc n) (Abandon a e force) \<sigma> = Some (r, \<sigma>')" for r \<sigma>'
  proof (cases "status (heap \<sigma> a) \<noteq> waiting \<and> \<not> force")
    case True
    with run eq show ?thesis by (auto simp: throw_def)
  next
    case False
    show ?thesis
    proof (cases "next' (heap \<sigma> a)")
      case None
      with False run eq show ?thesis by (auto simp: ret_def)
    next
      case (Some d)
      with False run eq have "exec U n (Reject d e) ?\<sigma>1 = Some (r, \<sigma>')"
        by (auto split: if_splits)
      then have "cell_evolves (heap ?\<sigma>1 a) (heap \<sigma>' a)"
        by (rule settled_stays) (simp_all add: assms(2))
      then show ?thesis by (simp add: cell_evolves_def)
    qed
  qed
  from eq fr show ?thesis by blast
qed

theorem C10_abandon_frame_witness:
  "\<not> truthy (onFail (heap (snd (defer_fn init)) 0)) \<and> 0 < fresh (snd (defer_fn init))
   \<and> exec U_echo (Suc 0) (Abandon 0 (VStr ''boom'') False) (snd (defer_fn init))
       = ret VUndef (upd 0 (\<lambda>p. p\<lparr>status := rejected\<rparr>) (snd (defer_fn init)))
   \<and> value' (heap (upd 0 (\<lambda>p. p\<lparr>status := rejected\<rparr>) (snd (defer_fn init))) 0) = VUndef
   \<and> status (heap (upd 0 (\<lambda>p. p\<lparr>status := rejected\<rparr>) (snd (defer_fn init))) 0) = rejected"
  using C10_abandon_frame[where U = U_echo and a = 0 and \<sigma> = "snd (defer_fn init)"
      and n = 0 and e = "VStr ''boom''" and force = False]
  by (simp add: eval_simps)

section \<open>Registration guards and status tests\<close>

lemma upd_status_same: "status (heap \<sigma> a) = v \<Longrightarrow> upd a (\<lambda>p. p\<lparr>status := v\<rparr>) \<sigma> = \<sigma>"
  by (auto simp: upd_def)

lemma Promise_then_unguarded:
  assumes "\<not> truthy (owed (heap \<tau> a))" and "a \<noteq> fresh \<tau>" and "\<not> truthy g"
  shows "Promise_then rec a s g \<tau> =
      andThen (if status (heap \<tau> a) = resolved
               then discard (rec (Fulfill a (value' (heap \<tau> a)) True) (registered_then a s \<tau>))
               else ret VUndef (registered_then a s \<tau>))
        (\<lambda>_ \<sigma>4. case next' (heap \<sigma>4 a) of None \<Rightarrow> typeError \<sigma>4 | Some d \<Rightarrow> ret (VPromise d) \<sigma>4)"
  using assms
  by (simp add: Promise_then_def registered_then_def defer_fn_def alloc_def Let_def
        cong: option.case_cong)

text \<open>
  Claim C9. The guards of \<^verbatim>\<open>then\<close> and \<^verbatim>\<open>catch\<close> test the stored handler for
  truthiness. After \<^verbatim>\<open>then\<close> with a falsy success callback (and no failure callback),
  a further \<^verbatim>\<open>then\<close> on the same promise passes the guard, replaces the stored
  callback and replaces \<^verbatim>\<open>next\<close> by a new Deferred: on a promise that is not
  resolved it returns the new promise, on a resolved one it goes on to \<^verbatim>\<open>fulfill\<close>.
  After \<^verbatim>\<open>catch\<close> with a falsy handler a further \<^verbatim>\<open>catch\<close> replaces the
  handler.
\<close>

theorem C9_falsy_handler_not_guarded:
  assumes "\<not> truthy f" and "\<not> truthy g" and "a < fresh \<sigma>"
  shows "(\<not> truthy (owed (heap \<sigma> a)) \<longrightarrow>
            exec U (Suc (Suc n)) (Then a f g) \<sigma> = ret (VPromise (fresh \<sigma>)) (registered_then a f \<sigma>)
          \<and> owed (heap (registered_then a s (registered_then a f \<sigma>)) a) = s
          \<and> next' (heap (registered_then a s (registered_then a f \<sigma>)) a) = Some (Suc (fresh \<sigma>))
          \<and> (status (heap \<sigma> a) \<noteq> resolved \<longrightarrow>
                exec U (Suc m) (Then a s g) (registered_then a f \<sigma>)
                  = ret (VPromise (Suc (fresh \<sigma>))) (registered_then a s (registered_then a f \<sigma>)))
          \<and> (status (heap \<sigma> a) = resolved \<longrightarrow>
                exec U (Suc m) (Then a s g) (registered_then a f \<sigma>)
                  = andThen (exec U m (Fulfill a (value' (heap \<sigma> a)) True)
                               (registered_then a s (registered_then a f \<sigma>)))
                      (\<lambda>_ \<sigma>4. case next' (heap \<sigma>4 a) of
                                 None \<Rightarrow> typeError \<sigma>4
                               | Some d \<Rightarrow> ret (VPromise d) \<sigma>4)))
       \<and> (\<not> truthy (onFail (heap \<sigma> a)) \<and> status (heap \<sigma> a) \<noteq> rejected \<longrightarrow>
            exec U (Suc n) (Catch a g) \<sigma> = ret VUndef (upd a (\<lambda>p. p\<lparr>onFail := g\<rparr>) \<sigma>)
          \<and> exec U (Suc m) (Catch a h) (upd a (\<lambda>p. p\<lparr>onFail := g\<rparr>) \<sigma>)
              = ret VUndef (upd a (\<lambda>p. p\<lparr>onFail := h\<rparr>) \<sigma>))"
proof -
  let ?\<sigma>1 = "registered_then a f \<sigma>"
  let ?\<sigma>2 = "registered_then a s ?\<sigma>1"
  from assms(3) have ne: "a \<noteq> fresh \<sigma>" "a \<noteq> Suc (fresh \<sigma>)" by simp_all
  have reg: "Promise_then rec a s' g \<tau> =
      andThen (if status (heap \<tau> a) = resolved
               then discard (rec (Fulfill a (value' (heap \<tau> a)) True) (registered_then a s' \<tau>))
               else ret VUndef (registered_then a s' \<tau>))
        (\<lambda>_ \<sigma>4. case next' (heap \<sigma>4 a) of None \<Rightarrow> typeError \<sigma>4 | Some d \<Rightarrow> ret (VPromise d) \<sigma>4)"
    if "\<not> truthy (owed (heap \<tau> a))" "a \<noteq> fresh \<tau>" for rec s' \<tau>
    using that assms(2)
    by (simp add: Promise_then_def registered_then_def defer_fn_def alloc_def Let_def
          cong: option.case_cong)
  have h1: "heap ?\<sigma>1 a = (heap \<sigma> a)\<lparr>owed := f, next' := Some (fresh \<sigma>)\<rparr>"
    using ne by simp
  have h2: "heap ?\<sigma>2 a = (heap \<sigma> a)\<lparr>owed := s, next' := Some (Suc (fresh \<sigma>))\<rparr>"
    using ne by (simp add: h1)
  have first: "exec U (Suc (Suc n)) (Then a f g) \<sigma> = ret (VPromise (fresh \<sigma>)) ?\<sigma>1"
    if "\<not> truthy (owed (heap \<sigma> a))"
  proof (cases "status (heap \<sigma> a) = resolved")
    case False
    then show ?thesis using that ne by (simp add: exec_Suc reg h1)
  next
    case True
    then have "exec U (Suc n) (Fulfill a (value' (heap \<sigma> a)) True) ?\<sigma>1 = ret VUndef ?\<sigma>1"
      using assms(1) by (simp add: exec_Suc Promise_fulfill_def h1 upd_status_same)
    then show ?thesis using that ne True by (simp add: exec_Suc[of U "Suc n"] reg h1)
  qed
  have second1: "exec U (Suc m) (Then a s g) ?\<sigma>1 = ret (VPromise (Suc (fresh \<sigma>))) ?\<sigma>2"
    if "status (heap \<sigma> a) \<noteq> resolved"
    using that ne assms(1) by (simp add: exec_Suc reg h1 h2)
  have second2: "exec U (Suc m) (Then a s g) ?\<sigma>1
                  = andThen (exec U m (Fulfill a (value' (heap \<sigma> a)) True) ?\<sigma>2)
                      (\<lambda>_ \<sigma>4. case next' (heap \<sigma>4 a) of
                                 None \<Rightarrow> typeError \<sigma>4
                               | Some d \<Rightarrow> ret (VPromise d) \<sigma>4)"
    if "status (heap \<sigma> a) = resolved"
    using that ne assms(1) by (simp add: exec_Suc reg h1)
  have c1: "exec U (Suc n) (Catch a g) \<sigma> = ret VUndef (upd a (\<lambda>p. p\<lparr>onFail := g\<rparr>) \<sigma>)"
    if "\<not> truthy (onFail (heap \<sigma> a))" "status (heap \<sigma> a) \<noteq> rejected"
    using that by (simp add: exec_Suc Promise_catch_def)
  have c2: "exec U (Suc m) (Catch a h) (upd a (\<lambda>p. p\<lparr>onFail := g\<rparr>) \<sigma>)
              = ret VUndef (upd a (\<lambda>p. p\<lparr>onFail := h\<rparr>) \<sigma>)"
    if "status (heap \<sigma> a) \<noteq> rejected"
    using that assms(2) by (simp add: exec_Suc Promise_catch_def)
  show ?thesis using first second1 second2 c1 c2 h2 by simp
qed

theorem C9_falsy_handler_not_guarded_witness:
  "exec U_echo (Suc (Suc 0)) (Then 0 VUndef VUndef) (snd (defer_fn init))
     = ret (VPromise 1) (registered_then 0 VUndef (snd (defer_fn init)))
   \<and> exec U_echo (Suc 0) (Then 0 (VUser 0) VUndef) (registered_then 0 VUndef (snd (defer_fn init)))
     = ret (VPromise 2) (registered_then 0 (VUser 0) (registered_then 0 VUndef (snd (defer_fn init))))
   \<and> owed (heap (registered_then 0 (VUser 0) (registered_then 0 VUndef (snd (defer_fn init)))) 0)
     = VUser 0
   \<and> next' (heap (registered_then 0 (VUser 0) (registered_then 0 VUndef (snd (defer_fn init)))) 0)
     = Some 2
   \<and> exec U_echo (Suc 0) (Catch 0 (VUser 1)) (upd 0 (\<lambda>p. p\<lparr>onFail := VUndef\<rparr>) (snd (defer_fn init)))
     = ret VUndef (upd 0 (\<lambda>p. p\<lparr>onFail := VUser 1\<rparr>) (snd (defer_fn init)))"
  using C9_falsy_handler_not_guarded[where U = U_echo and a = 0 and \<sigma> = "snd (defer_fn init)"
      and f = VUndef and g = VUndef and s = "VUser 0" and h = "VUser 1" and n = 0 and m = 0]
  by (simp add: defer_fn_def alloc_def init_def Promise_def waiting_def resolved_def rejected_def
        bindings_loaded_def bindings_line10_def numeral_2_eq_2)



section \<open>The callback adapter\<close>

lemma andThen_discard: "andThen (discard m) (\<lambda>_. k) = andThen m (\<lambda>_. k)"
  by (simp add: discard_def andThen_def ret_def split: option.splits outcome.splits prod.splits)

text \<open>
  Claim C5, amended. Calling the function that \<^verbatim>\<open>promisify(fn, context)\<close> returns
  creates a waiting promise, calls \<^verbatim>\<open>fn\<close> with \<^verbatim>\<open>this = context\<close> on the
  arguments followed by the completion callback, and returns the promise if that call
  returns; if the call throws, the exception goes to the caller and no promise is
  returned. The completion callback, called with \<^verbatim>\<open>(err, data)\<close>, does what the
  Deferred's \<^verbatim>\<open>reject(err)\<close> does when \<^verbatim>\<open>err\<close> is truthy and what
  \<^verbatim>\<open>resolve(data)\<close> does otherwise; on a waiting promise this sets the status to
  rejected, respectively resolved.
\<close>

theorem C5_adapted_function:
  "exec U (Suc (Suc (Suc (Suc n)))) (CallF (promisify fn ctx) this args) \<sigma>
     = andThen (exec U n (CallF fn ctx
                  (args @ [VFailableCb (VReject (fresh \<sigma>)) (VResolve (fresh \<sigma>))]))
                  (snd (defer_fn \<sigma>)))
         (\<lambda>_ \<sigma>2. ret (VPromise (fresh \<sigma>)) \<sigma>2)
   \<and> (\<forall>v \<sigma>2. exec U n (CallF fn ctx
                  (args @ [VFailableCb (VReject (fresh \<sigma>)) (VResolve (fresh \<sigma>))]))
                  (snd (defer_fn \<sigma>)) = Some (Normal v, \<sigma>2)
         \<longrightarrow> exec U (Suc (Suc (Suc (Suc n)))) (CallF (promisify fn ctx) this args) \<sigma>
               = Some (Normal (VPromise (fresh \<sigma>)), \<sigma>2))
   \<and> (\<forall>e \<sigma>2. exec U n (CallF fn ctx
                  (args @ [VFailableCb (VReject (fresh \<sigma>)) (VResolve (fresh \<sigma>))]))
                  (snd (defer_fn \<sigma>)) = Some (Thrown e, \<sigma>2)
         \<longrightarrow> exec U (Suc (Suc (Suc (Suc n)))) (CallF (promisify fn ctx) this args) \<sigma>
               = Some (Thrown e, \<sigma>2))
   \<and> status (heap (snd (defer_fn \<sigma>)) (fresh \<sigma>)) = waiting
   \<and> exec U (Suc (Suc (Suc m))) (CallF (VFailableCb (VReject d) (VResolve d)) this' [err, data]) \<tau>
       = (if truthy err then exec U m (Abandon d err False) \<tau>
          else exec U m (Fulfill d data False) \<tau>)
   \<and> (status (heap \<tau> d) = waiting \<and> d < fresh \<tau> \<longrightarrow>
        (\<forall>r \<tau>'. exec U (Suc (Suc (Suc m)))
                   (CallF (VFailableCb (VReject d) (VResolve d)) this' [err, data]) \<tau>
                 = Some (r, \<tau>')
           \<longrightarrow> status (heap \<tau>' d) = (if truthy err then rejected else resolved)))"
proof -
  let ?cb = "VFailableCb (VReject d) (VResolve d)"
  have 1: "exec U (Suc (Suc (Suc (Suc n)))) (CallF (promisify fn ctx) this args) \<sigma>
     = andThen (exec U n (CallF fn ctx
                  (args @ [VFailableCb (VReject (fresh \<sigma>)) (VResolve (fresh \<sigma>))]))
                  (snd (defer_fn \<sigma>)))
         (\<lambda>_ \<sigma>2. ret (VPromise (fresh \<sigma>)) \<sigma>2)"
    by (simp add: exec_Suc promisify_def promisified_def failable_def wrapper_def
          defer_fn_def alloc_def arg_def andThen_discard)
  have 2: "status (heap (snd (defer_fn \<sigma>)) (fresh \<sigma>)) = waiting"
    by (simp add: defer_fn_def alloc_def Promise_def)
  have 3: "exec U (Suc (Suc (Suc m))) (CallF ?cb this' [err, data]) \<tau>
       = (if truthy err then exec U m (Abandon d err False) \<tau>
          else exec U m (Fulfill d data False) \<tau>)"
    by (simp add: exec_Suc[of U "Suc (Suc m)"] exec_Suc[of U "Suc m"] failable_cb_def arg_def
          exec_Reject exec_Resolve)
  have 4: "status (heap \<tau>' d) = (if truthy err then rejected else resolved)"
    if w: "status (heap \<tau> d) = waiting" "d < fresh \<tau>"
      and run: "exec U (Suc (Suc (Suc m))) (CallF ?cb this' [err, data]) \<tau> = Some (r, \<tau>')"
    for r \<tau>'
  proof (cases "truthy err")
    case True
    with run 3 have a: "exec U m (Abandon d err False) \<tau> = Some (r, \<tau>')" by simp
    then obtain k where m: "m = Suc k" by (cases m) simp_all
    let ?\<sigma>2 = "upd d (\<lambda>p. p\<lparr>status := rejected, value' := err\<rparr>) \<tau>"
    let ?\<sigma>1 = "upd d (\<lambda>p. p\<lparr>status := rejected\<rparr>) \<tau>"
    have "res_evolves (if truthy (onFail (heap \<tau> d)) then ?\<sigma>2 else ?\<sigma>1)
            (Promise_abandon (exec U k) d err False \<tau>)"
      unfolding Promise_abandon_def Let_def using w(1)
      by (auto intro!: res_evolves_intros res_evolves_rec[OF exec_evolving]
          split: option.splits)
    with a m have "evolves (if truthy (onFail (heap \<tau> d)) then ?\<sigma>2 else ?\<sigma>1) \<tau>'"
      by (simp add: exec_Suc res_evolves_def)
    then have "cell_evolves (heap (if truthy (onFail (heap \<tau> d)) then ?\<sigma>2 else ?\<sigma>1) d) (heap \<tau>' d)"
      using w(2) by (intro evolves_cell) (simp_all split: if_splits)
    with True show ?thesis by (simp add: cell_evolves_def split: if_splits)
  next
    case False
    with run 3 have a: "exec U m (Fulfill d data False) \<tau> = Some (r, \<tau>')" by simp
    then obtain k where m: "m = Suc k" by (cases m) simp_all
    let ?\<sigma>1 = "upd d (\<lambda>p. p\<lparr>status := resolved\<rparr>) \<tau>"
    have "res_evolves ?\<sigma>1 (Promise_fulfill (exec U k) d data False \<tau>)"
      unfolding Promise_fulfill_def Let_def using w(1)
      by (auto intro!: res_evolves_intros res_evolves_rec[OF exec_evolving] evolves_upd_value
          split: option.splits)
    with a m have "evolves ?\<sigma>1 \<tau>'" by (simp add: exec_Suc res_evolves_def)
    then have "cell_evolves (heap ?\<sigma>1 d) (heap \<tau>' d)"
      using w(2) by (intro evolves_cell) simp_all
    with False show ?thesis by (simp add: cell_evolves_def)
  qed
  have 5: "exec U (Suc (Suc (Suc (Suc n)))) (CallF (promisify fn ctx) this args) \<sigma>
               = Some (Normal (VPromise (fresh \<sigma>)), \<sigma>2)"
    if "exec U n (CallF fn ctx
                  (args @ [VFailableCb (VReject (fresh \<sigma>)) (VResolve (fresh \<sigma>))]))
                  (snd (defer_fn \<sigma>)) = Some (Normal v, \<sigma>2)" for v \<sigma>2
    unfolding 1 using that by (simp add: ret_def)
  have 6: "exec U (Suc (Suc (Suc (Suc n)))) (CallF (promisify fn ctx) this args) \<sigma>
               = Some (Thrown e, \<sigma>2)"
    if "exec U n (CallF fn ctx
                  (args @ [VFailableCb (VReject (fresh \<sigma>)) (VResolve (fresh \<sigma>))]))
                  (snd (defer_fn \<sigma>)) = Some (Thrown e, \<sigma>2)" for e \<sigma>2
    unfolding 1 using that by simp
  from 1 2 3 4 5 6 show ?thesis by blast
qed

theorem C5_adapted_function_witness:
  "exec U_echo (Suc (Suc (Suc (Suc 2)))) (CallF (promisify (VUser 0) VNull) VUndef []) init
     = ret (VPromise 0)
         ((snd (defer_fn init))\<lparr>calls := [(0, VNull, [VFailableCb (VReject 0) (VResolve 0)])]\<rparr>)
   \<and> status (heap (snd (defer_fn init)) 0) = waiting \<and> 0 < fresh (snd (defer_fn init))
   \<and> exec U_echo (Suc (Suc (Suc 1))) (CallF (VFailableCb (VReject 0) (VResolve 0)) VUndef
         [VNull, VNum 42]) (snd (defer_fn init))
       = ret VUndef (upd 0 (\<lambda>p. p\<lparr>status := resolved\<rparr>) (snd (defer_fn init)))
   \<and> status (heap (upd 0 (\<lambda>p. p\<lparr>status := resolved\<rparr>) (snd (defer_fn init))) 0) = resolved
   \<and> map_option (\<lambda>(r, \<sigma>). (r, calls \<sigma>, status (heap \<sigma> 0)))
         (exec U_echo 12 (Run (adapter_prog VNull (VNum 42))) init)
       = Some (Normal (VPromise 0),
               [(0, VNull, [VFailableCb (VReject 0) (VResolve 0)]), (1, VPromise 0, [VNum 42])],
               resolved)
   \<and> map_option (\<lambda>(r, \<sigma>). (r, calls \<sigma>, status (heap \<sigma> 0)))
         (exec U_echo 12 (Run (adapter_prog (VStr ''fail'') VUndef)) init)
       = Some (Normal (VPromise 0),
               [(0, VNull, [VFailableCb (VReject 0) (VResolve 0)]),
                (2, VPromise 0, [VStr ''fail''])],
               rejected)"
  using C5_adapted_function[where U = U_echo and \<tau> = "snd (defer_fn init)" and d = 0
      and m = 1 and err = VNull and data = "VNum 42" and this' = VUndef
      and fn = "VUser 0" and ctx = VNull and this = VUndef and args = "[]" and \<sigma> = init
      and n = 2]
  by (simp add: eval_simps adapter_prog_def U_echo_def)

text \<open>
  The claim as stated fails where \<^verbatim>\<open>fn\<close> throws and where \<^verbatim>\<open>fn\<close> fires the
  callback twice: the call of the adapted function throws and returns no promise.
\<close>

theorem C5_counterexample:
  "map_option fst (exec U_throw 10 (CallF (promisify (VUser 0) VUndef) VUndef []) init)
     = Some (Thrown (VStr ''nope''))
   \<and> map_option fst (exec U_twice 12 (CallF (promisify (VUser 0) VUndef) VUndef []) init)
     = Some (Thrown (VError ''Tried to fulfill a promise twice.''))"
  by (simp add: eval_simps U_throw_def U_twice_def)

section \<open>Success forwarding\<close>

text \<open>
  Claim C1 at two inputs. In \<open>plain_prog\<close> the first callback returns the number 2:
  the second callback is never called and the promise that \<^verbatim>\<open>then\<close> returned (address
  1) stays waiting. In \<open>flatten_prog\<close> the first callback returns the promise of
  \<^verbatim>\<open>resolved(1).then(f1)\<close> (address 4): \<^verbatim>\<open>f1\<close> runs and its result 2 is stored in
  the inner promise (address 3), but promise 4 is never resolved, so neither is promise 1,
  and the last callback (index 2) is never called.
\<close>

theorem C1_plain_value_not_forwarded:
  "map_option (\<lambda>(r, \<sigma>). (r, calls \<sigma>, value' (heap \<sigma> 0), status (heap \<sigma> 0), status (heap \<sigma> 1)))
       (exec U_flat 20 (Run plain_prog) init)
     = Some (Normal (VPromise 1), [(1, VPromise 0, [VNum 1])], VNum 2, resolved, waiting)
   \<and> map_option (\<lambda>(r, \<sigma>). (r, calls \<sigma>, value' (heap \<sigma> 0), value' (heap \<sigma> 3),
                              status (heap \<sigma> 4), status (heap \<sigma> 1)))
       (exec U_flat 20 (Run flatten_prog) init)
     = Some (Normal (VPromise 1),
             [(0, VPromise 0, [VNum 7]), (1, VPromise 3, [VNum 1])],
             VPromise 4, VNum 2, waiting, waiting)"
  by (simp add: eval_simps U_flat_def plain_prog_def flatten_prog_def)

section \<open>Late registration\<close>

text \<open>
  Claim C2 at two inputs. Registered after \<^verbatim>\<open>d.resolve(5)\<close>, the success callback is
  called with \<^verbatim>\<open>undefined\<close>; registered before, it is called with 5. Registered after
  \<^verbatim>\<open>d.reject("boom")\<close>, the failure handler is called with \<^verbatim>\<open>undefined\<close>;
  registered before, it is called with the error. A \<^verbatim>\<open>then(f0).catch(f1)\<close>
  registered after the rejection calls nothing; registered before, \<^verbatim>\<open>f1\<close> is called
  with the error.
\<close>

theorem C2_late_registration_loses_value:
  "map_option (calls \<circ> snd) (exec U_echo 12 (Run late_then_prog) init)
     = Some [(0, VPromise 0, [VUndef])]
   \<and> map_option (calls \<circ> snd) (exec U_echo 12 (Run early_then_prog) init)
     = Some [(0, VPromise 0, [VNum 5])]
   \<and> map_option (calls \<circ> snd) (exec U_echo 12 (Run late_catch_prog) init)
     = Some [(1, VPromise 0, [VUndef])]
   \<and> map_option (calls \<circ> snd) (exec U_echo 12 (Run early_catch_prog) init)
     = Some [(1, VPromise 0, [VStr ''boom''])]
   \<and> map_option (calls \<circ> snd) (exec U_echo 12 (Run late_chain_prog) init)
     = Some []
   \<and> map_option (calls \<circ> snd) (exec U_echo 12 (Run early_chain_prog) init)
     = Some [(1, VPromise 1, [VStr ''boom''])]"
  by (simp add: eval_simps U_echo_def late_then_prog_def early_then_prog_def
        late_catch_prog_def early_catch_prog_def late_chain_prog_def early_chain_prog_def)

end
